theory Spec2Isabelle
  imports Complex_Main
begin

section \<open>Primary flight display simulator: the flight-dynamics loop and the PFD layout\<close>

text \<open>
  The development embeds \<^verbatim>\<open>example.py\<close> (the simulation loop: event handling,
  the flight-mode controller, the g-load and the heading model) and the constructor of
  \<^verbatim>\<open>PrimaryFlightDisplay\<close> in \<^verbatim>\<open>pfd/pfd.py\<close>.

  Numbers: the program computes with Python and numpy floats, that is IEEE binary64. The
  flight logic is modelled over exact reals (\<^typ>\<open>real\<close>), so \<open>0.4\<close> is the rational
  \<open>4/10\<close> and \<open>np.cos\<close>, \<open>np.tan\<close> are \<^const>\<open>cos\<close> and \<^const>\<open>tan\<close>. Rounding is
  modelled where it decides what is stated: \<open>f64\<close> rounds a real to the nearest binary64
  number, \<open>py_mod\<close> rounds the one inexact operation of \<^verbatim>\<open>%\<close>, and \<open>smooth_f64\<close> is
  \<open>smooth\<close> with every operation rounded. Infinity and NaN do not exist in the model.

  The tangent: at a roll of \<open>90 + 180 k\<close> degrees the real tangent has a pole, and
  \<^const>\<open>tan\<close> is 0 there, while the program gets the large finite value of \<open>np.tan\<close> at the
  rounded angle. The statements on the heading either exclude these rolls or hold
  whatever the value of the tangent is.
\<close>

subsection \<open>Rounding to binary64\<close>

text \<open>\<open>pow2 e\<close> is \<open>2\<close> to the integer power \<open>e\<close>, \<open>binade x\<close> the exponent of \<open>x\<close>:
  \<open>pow2 (binade x) \<le> \<bar>x\<bar> < pow2 (binade x + 1)\<close>.\<close>

definition pow2 :: "int \<Rightarrow> real" where
  "pow2 e = (if 0 \<le> e then 2 ^ nat e else 1 / 2 ^ nat (- e))"

definition binade :: "real \<Rightarrow> int" where
  "binade x = \<lfloor>log 2 \<bar>x\<bar>\<rfloor>"

text \<open>Rounding to the nearest integer, a tie to the even one.\<close>

definition round_half_even :: "real \<Rightarrow> int" where
  "round_half_even y =
     (let f = \<lfloor>y\<rfloor>; d = y - of_int f
      in if d < 1/2 then f else if 1/2 < d then f + 1 else if even f then f else f + 1)"

text \<open>The binary64 number nearest to \<open>x\<close>: 53 significant bits, the spacing of the
  subnormal numbers below \<open>pow2 (- 1022)\<close>. Overflow to infinity is not modelled.\<close>

definition f64 :: "real \<Rightarrow> real" where
  "f64 x =
     (if x = 0 then 0
      else (let q = pow2 (max (binade x) (- 1022) - 52)
            in of_int (round_half_even (x / q)) * q))"

text \<open>Truncation toward zero, the quotient of C's \<^verbatim>\<open>fmod\<close>.\<close>

definition trunc :: "real \<Rightarrow> int" where
  "trunc x = (if 0 \<le> x then \<lfloor>x\<rfloor> else \<lceil>x\<rceil>)"


subsection \<open>Errors and the fallible arithmetic\<close>

datatype py_error = ZeroDivisionError | ValueError | InvalidResolution

text \<open>Python's \<^verbatim>\<open>a / b\<close>: a zero denominator is the error branch.\<close>

definition py_div :: "real \<Rightarrow> real \<Rightarrow> py_error + real" where
  "py_div a b = (if b = 0 then Inl ZeroDivisionError else Inr (a / b))"

text \<open>Python's \<^verbatim>\<open>a % b\<close> on floats, as the interpreter and numpy compute it: \<open>m\<close> is
  \<^verbatim>\<open>fmod(a, b)\<close>, which is exact; when \<open>m\<close> is not zero and its sign is not the sign of
  \<open>b\<close>, the result is \<open>m + b\<close>, and this addition is rounded.\<close>

definition py_mod :: "real \<Rightarrow> real \<Rightarrow> py_error + real" where
  "py_mod a b =
     (if b = 0 then Inl ZeroDivisionError
      else (let m = a - b * of_int (trunc (a / b))
            in Inr (if m \<noteq> 0 \<and> (b < 0) \<noteq> (m < 0) then f64 (m + b) else m)))"

text \<open>\<^verbatim>\<open>np.radians\<close> and \<^verbatim>\<open>np.clip\<close>.\<close>

definition radians :: "real \<Rightarrow> real" where
  "radians x = x * pi / 180"

definition clip :: "real \<Rightarrow> real \<Rightarrow> real \<Rightarrow> real" where
  "clip x lo hi = min (max x lo) hi"

subsection \<open>Screen layout and flight constants\<close>

definition SCREEN_WIDTH :: int where "SCREEN_WIDTH = 1200"
definition SCREEN_HEIGHT :: int where "SCREEN_HEIGHT = 800"
definition PFD_WIDTH :: int where "PFD_WIDTH = 800"
definition PANEL_WIDTH :: int where "PANEL_WIDTH = SCREEN_WIDTH - PFD_WIDTH"

definition VS_CLIMB :: real where "VS_CLIMB = 700"
definition VS_DESCENT :: real where "VS_DESCENT = - 600"
definition PITCH_CLIMB :: real where "PITCH_CLIMB = 7"
definition PITCH_DESCENT :: real where "PITCH_DESCENT = - 4"
definition ALT_CAPTURE_BAND :: real where "ALT_CAPTURE_BAND = 80"

subsection \<open>Buttons\<close>

datatype flight_mode = CLIMB | DESCENT | ALT_CAPTURE | CRUISE | ROLLS

text \<open>A \<^verbatim>\<open>pygame.Rect\<close> with integer coordinates; \<^verbatim>\<open>collidepoint\<close> excludes the
  right and the bottom edge.\<close>

record rect =
  left :: int
  top :: int
  width :: int
  height :: int

definition Rect :: "int \<Rightarrow> int \<Rightarrow> int \<Rightarrow> int \<Rightarrow> rect" where
  "Rect x y w h = \<lparr>left = x, top = y, width = w, height = h\<rparr>"

definition collidepoint :: "rect \<Rightarrow> int \<times> int \<Rightarrow> bool" where
  "collidepoint r p =
     (left r \<le> fst p \<and> fst p < left r + width r \<and> top r \<le> snd p \<and> snd p < top r + height r)"

definition MODES :: "flight_mode list" where
  "MODES = [CLIMB, DESCENT, CRUISE, ROLLS]"

text \<open>The dictionary \<^verbatim>\<open>buttons\<close>, in insertion order.\<close>

definition buttons :: "(flight_mode \<times> rect) list" where
  "buttons = map (\<lambda>(i, m). (m, Rect (PFD_WIDTH + 50) (100 + int i * 80) 300 60))
                 (enumerate 0 MODES)"

definition ALT_UP :: rect where "ALT_UP = Rect (PFD_WIDTH + 100) 460 100 40"
definition ALT_DN :: rect where "ALT_DN = Rect (PFD_WIDTH + 210) 460 100 40"
definition IAS_UP :: rect where "IAS_UP = Rect (PFD_WIDTH + 120) 560 80 40"
definition IAS_DN :: rect where "IAS_DN = Rect (PFD_WIDTH + 210) 560 80 40"
definition TURN_UP :: rect where "TURN_UP = Rect (PFD_WIDTH + 100) 660 90 40"
definition TURN_DN :: rect where "TURN_DN = Rect (PFD_WIDTH + 210) 660 90 40"

definition BANK_OPTIONS :: "int list" where
  "BANK_OPTIONS = [- 65, - 60, - 45, - 30, 0, 30, 45, 60, 65]"

text \<open>\<^verbatim>\<open>list.index\<close>: the first position of the value, \<^verbatim>\<open>ValueError\<close> when absent.\<close>

fun index_of :: "int list \<Rightarrow> int \<Rightarrow> py_error + nat" where
  "index_of [] v = Inl ValueError"
| "index_of (x # xs) v =
     (if x = v then Inr 0
      else case index_of xs v of Inl e \<Rightarrow> Inl e | Inr i \<Rightarrow> Inr (Suc i))"

subsection \<open>State variables\<close>

text \<open>The module-level variables of the simulation. The wall-clock values \<^verbatim>\<open>t0\<close> and
  \<^verbatim>\<open>sim_time\<close> only feed the on-screen text and are left out.\<close>

record sim =
  running :: bool
  mode :: flight_mode
  prev_mode :: flight_mode
  ALTITUDE_CMD :: real
  IAS_CMD :: real
  bank_angle :: int
  roll :: real
  pitch :: real
  heading :: real
  airspeed :: real
  altitude :: real
  vspeed :: real
  g_factor :: real

definition init :: sim where
  "init = \<lparr>running = True, mode = CRUISE, prev_mode = CRUISE,
           ALTITUDE_CMD = 1000, IAS_CMD = 100, bank_angle = 0,
           roll = 0, pitch = 0, heading = 0, airspeed = 100, altitude = 1000,
           vspeed = 0, g_factor = 1\<rparr>"

subsection \<open>Helpers\<close>

definition smooth :: "real \<Rightarrow> real \<Rightarrow> real \<Rightarrow> real \<Rightarrow> real" where
  "smooth v t r dt = v + (t - v) * r * dt"


definition update_airspeed :: "real \<Rightarrow> real \<Rightarrow> real \<Rightarrow> real \<Rightarrow> real" where
  "update_airspeed ias p target dt = smooth ias (target - p * 0.4) 0.8 dt"

definition compute_g :: "real \<Rightarrow> py_error + real" where
  "compute_g bank = py_div 1 (max 0.01 (cos (radians bank)))"

subsection \<open>Events\<close>

datatype event = QUIT | MOUSEBUTTONDOWN "int \<times> int" | OTHER

text \<open>The loop over \<^verbatim>\<open>buttons.items()\<close>: every button whose rectangle holds the click
  records the current mode and selects its own.\<close>

fun press_buttons :: "(flight_mode \<times> rect) list \<Rightarrow> int \<times> int \<Rightarrow> sim \<Rightarrow> sim" where
  "press_buttons [] pos s = s"
| "press_buttons ((m, r) # bs) pos s =
     press_buttons bs pos
       (if collidepoint r pos then s\<lparr>prev_mode := mode s, mode := m\<rparr> else s)"

definition alt_knob :: "int \<times> int \<Rightarrow> sim \<Rightarrow> sim" where
  "alt_knob pos s =
     (let s1 = (if collidepoint ALT_UP pos
                then (let s' = s\<lparr>ALTITUDE_CMD := ALTITUDE_CMD s + 100\<rparr>
                      in if mode s' = CRUISE then s'\<lparr>mode := CLIMB\<rparr> else s')
                else s)
      in if collidepoint ALT_DN pos
         then (let s' = s1\<lparr>ALTITUDE_CMD := ALTITUDE_CMD s1 - 100\<rparr>
               in if mode s' = CRUISE then s'\<lparr>mode := DESCENT\<rparr> else s')
         else s1)"

definition ias_knob :: "int \<times> int \<Rightarrow> sim \<Rightarrow> sim" where
  "ias_knob pos s =
     (let s1 = (if collidepoint IAS_UP pos then s\<lparr>IAS_CMD := IAS_CMD s + 5\<rparr> else s)
      in if collidepoint IAS_DN pos then s1\<lparr>IAS_CMD := IAS_CMD s1 - 5\<rparr> else s1)"

definition turn_up :: "sim \<Rightarrow> py_error + sim" where
  "turn_up s =
     (case index_of BANK_OPTIONS (bank_angle s) of
        Inl e \<Rightarrow> Inl e
      | Inr idx \<Rightarrow>
          Inr (if idx < length BANK_OPTIONS - 1
               then s\<lparr>bank_angle := BANK_OPTIONS ! (idx + 1)\<rparr> else s))"

definition turn_dn :: "sim \<Rightarrow> py_error + sim" where
  "turn_dn s =
     (case index_of BANK_OPTIONS (bank_angle s) of
        Inl e \<Rightarrow> Inl e
      | Inr idx \<Rightarrow>
          Inr (if idx > 0 then s\<lparr>bank_angle := BANK_OPTIONS ! (idx - 1)\<rparr> else s))"

definition turn_knob :: "int \<times> int \<Rightarrow> sim \<Rightarrow> py_error + sim" where
  "turn_knob pos s =
     (case (if collidepoint TURN_UP pos then turn_up s else Inr s) of
        Inl e \<Rightarrow> Inl e
      | Inr s1 \<Rightarrow> if collidepoint TURN_DN pos then turn_dn s1 else Inr s1)"

fun handle_event :: "event \<Rightarrow> sim \<Rightarrow> py_error + sim" where
  "handle_event QUIT s = Inr (s\<lparr>running := False\<rparr>)"
| "handle_event (MOUSEBUTTONDOWN pos) s =
     turn_knob pos (ias_knob pos (alt_knob pos (press_buttons buttons pos s)))"
| "handle_event OTHER s = Inr s"

fun handle_events :: "event list \<Rightarrow> sim \<Rightarrow> py_error + sim" where
  "handle_events [] s = Inr s"
| "handle_events (e # es) s =
     (case handle_event e s of Inl err \<Rightarrow> Inl err | Inr s' \<Rightarrow> handle_events es s')"

subsection \<open>Flight logic\<close>

text \<open>The \<^verbatim>\<open>if\<close>/\<^verbatim>\<open>elif\<close> chain over the mode, one branch per mode, in the order of
  the source. Every \<^verbatim>\<open>/\<close> goes through \<^const>\<open>py_div\<close>.\<close>

definition climb :: "real \<Rightarrow> sim \<Rightarrow> py_error + sim" where
  "climb dt s =
     (let roll' = smooth (roll s) 0 2 dt;
          pitch' = smooth (pitch s) PITCH_CLIMB 1.5 dt;
          vspeed' = smooth (vspeed s) VS_CLIMB 1.5 dt
      in case py_div vspeed' 60 of
           Inl e \<Rightarrow> Inl e
         | Inr q \<Rightarrow>
             (let altitude' = altitude s + q * dt;
                  airspeed' = update_airspeed (airspeed s) pitch' (IAS_CMD s - 10) dt
              in Inr (s\<lparr>roll := roll', pitch := pitch', vspeed := vspeed',
                        altitude := altitude', airspeed := airspeed',
                        mode := (if altitude' \<ge> ALTITUDE_CMD s - ALT_CAPTURE_BAND
                                 then ALT_CAPTURE else mode s)\<rparr>)))"

definition descent :: "real \<Rightarrow> sim \<Rightarrow> py_error + sim" where
  "descent dt s =
     (let roll' = smooth (roll s) 0 2 dt;
          pitch' = smooth (pitch s) PITCH_DESCENT 1.5 dt;
          vspeed' = smooth (vspeed s) VS_DESCENT 1.5 dt
      in case py_div vspeed' 60 of
           Inl e \<Rightarrow> Inl e
         | Inr q \<Rightarrow>
             (let altitude' = altitude s + q * dt;
                  airspeed' = update_airspeed (airspeed s) pitch' (IAS_CMD s + 5) dt
              in Inr (s\<lparr>roll := roll', pitch := pitch', vspeed := vspeed',
                        altitude := altitude', airspeed := airspeed',
                        mode := (if altitude' \<le> ALTITUDE_CMD s + ALT_CAPTURE_BAND
                                 then ALT_CAPTURE else mode s)\<rparr>)))"

definition alt_capture :: "real \<Rightarrow> sim \<Rightarrow> py_error + sim" where
  "alt_capture dt s =
     (let roll' = smooth (roll s) 0 2.5 dt;
          error = ALTITUDE_CMD s - altitude s;
          vs_cmd = clip (error * 5) (- 500) 500;
          vspeed' = smooth (vspeed s) vs_cmd 2 dt
      in case py_div vs_cmd 150 of
           Inl e \<Rightarrow> Inl e
         | Inr pitch_cmd \<Rightarrow>
             (let pitch' = smooth (pitch s) pitch_cmd 2 dt
              in case py_div vspeed' 25 of
                   Inl e \<Rightarrow> Inl e
                 | Inr q \<Rightarrow>
                     (let altitude' = altitude s + q * dt;
                          airspeed' = update_airspeed (airspeed s) pitch' (IAS_CMD s) dt
                      in if \<bar>error\<bar> < 5
                         then Inr (s\<lparr>roll := roll', altitude := ALTITUDE_CMD s,
                                     airspeed := IAS_CMD s, pitch := 0, vspeed := 0,
                                     mode := CRUISE\<rparr>)
                         else Inr (s\<lparr>roll := roll', vspeed := vspeed', pitch := pitch',
                                     altitude := altitude', airspeed := airspeed'\<rparr>))))"

definition cruise :: "real \<Rightarrow> sim \<Rightarrow> py_error + sim" where
  "cruise dt s =
     Inr (s\<lparr>roll := smooth (roll s) 0 3 dt,
            pitch := smooth (pitch s) 0 3 dt,
            vspeed := smooth (vspeed s) 0 3 dt,
            airspeed := smooth (airspeed s) (IAS_CMD s) 1.2 dt\<rparr>)"

definition rolls :: "real \<Rightarrow> sim \<Rightarrow> py_error + sim" where
  "rolls dt s =
     (let roll' = smooth (roll s) (of_int (bank_angle s)) 1.5 dt
      in case compute_g \<bar>roll'\<bar> of
           Inl e \<Rightarrow> Inl e
         | Inr g_target \<Rightarrow>
             (let g_factor' = smooth (g_factor s) g_target 3 dt;
                  pitch' = smooth (pitch s) (3 + (g_factor' - 1) * 3) 1.5 dt;
                  airspeed' = update_airspeed (airspeed s) pitch' (IAS_CMD s - 5) dt
              in Inr (s\<lparr>roll := roll', g_factor := g_factor', pitch := pitch',
                        airspeed := airspeed'\<rparr>)))"

definition flight_logic :: "real \<Rightarrow> sim \<Rightarrow> py_error + sim" where
  "flight_logic dt s =
     (if mode s = CLIMB then climb dt s
      else if mode s = DESCENT then descent dt s
      else if mode s = ALT_CAPTURE then alt_capture dt s
      else if mode s = CRUISE then cruise dt s
      else if mode s = ROLLS then rolls dt s
      else Inr s)"

text \<open>The g-load decay that follows the chain, on the mode the chain has left.\<close>

definition g_decay :: "real \<Rightarrow> sim \<Rightarrow> sim" where
  "g_decay dt s =
     (if mode s \<noteq> ROLLS then s\<lparr>g_factor := smooth (g_factor s) 1 2.5 dt\<rparr> else s)"

subsection \<open>Heading dynamics\<close>

definition heading_dynamics :: "real \<Rightarrow> sim \<Rightarrow> py_error + sim" where
  "heading_dynamics dt s =
     (if \<bar>roll s\<bar> > 1 \<and> airspeed s > 30
      then case py_div (1091 * tan (radians (roll s))) (max (airspeed s) 1) of
             Inl e \<Rightarrow> Inl e
           | Inr turn_rate \<Rightarrow>
               (case py_mod (heading s + turn_rate * dt) 360 of
                  Inl e \<Rightarrow> Inl e
                | Inr h \<Rightarrow> Inr (s\<lparr>heading := h\<rparr>))
      else Inr s)"

subsection \<open>One iteration of the main loop, and the loop\<close>

text \<open>The part of an iteration that follows the events: flight logic, g-load decay,
  heading.\<close>

definition update :: "real \<Rightarrow> sim \<Rightarrow> py_error + sim" where
  "update dt s =
     (case flight_logic dt s of
        Inl e \<Rightarrow> Inl e
      | Inr s1 \<Rightarrow> heading_dynamics dt (g_decay dt s1))"

text \<open>An iteration: \<open>dt\<close> is \<^verbatim>\<open>clock.tick(60) / 1000\<close>, \<open>evs\<close> is the queue that
  \<^verbatim>\<open>pygame.event.get()\<close> returns.\<close>

definition tick :: "event list \<Rightarrow> real \<Rightarrow> sim \<Rightarrow> py_error + sim" where
  "tick evs dt s =
     (case handle_events evs s of
        Inl e \<Rightarrow> Inl e
      | Inr s1 \<Rightarrow> update dt s1)"

text \<open>The loop \<^verbatim>\<open>while running\<close>, over the frames the outside world supplies: each
  frame is the frame time and the event queue.\<close>

fun main_loop :: "(real \<times> event list) list \<Rightarrow> sim \<Rightarrow> py_error + sim" where
  "main_loop [] s = Inr s"
| "main_loop ((dt, evs) # fs) s =
     (if running s
      then case tick evs dt s of Inl e \<Rightarrow> Inl e | Inr s' \<Rightarrow> main_loop fs s'
      else Inr s)"

text \<open>\<open>n\<close> iterations with an empty event queue and a fixed frame time.\<close>

fun run :: "real \<Rightarrow> nat \<Rightarrow> sim \<Rightarrow> py_error + sim" where
  "run dt 0 s = Inr s"
| "run dt (Suc n) s =
     (case run dt n s of Inl e \<Rightarrow> Inl e | Inr s' \<Rightarrow> tick [] dt s')"

subsection \<open>The aircraft state handed to the display\<close>

record aircraft_state =
  as_roll :: real
  as_pitch :: real
  as_airspeed :: real
  as_airspeed_cmd :: real
  as_altitude :: real
  as_altitude_cmd :: real
  as_vspeed :: real
  as_heading :: real
  as_heading_cmd :: "real option"
  as_course :: real

definition snapshot :: "sim \<Rightarrow> aircraft_state" where
  "snapshot s =
     \<lparr>as_roll = roll s, as_pitch = pitch s, as_airspeed = airspeed s,
      as_airspeed_cmd = IAS_CMD s, as_altitude = altitude s,
      as_altitude_cmd = ALTITUDE_CMD s, as_vspeed = vspeed s, as_heading = heading s,
      as_heading_cmd = None, as_course = heading s\<rparr>"

subsection \<open>The primary flight display\<close>

text \<open>Modelled from the spec: the instrument classes (\<^verbatim>\<open>AirspeedIndicator\<close>,
  \<^verbatim>\<open>AltitudeIndicator\<close>, \<^verbatim>\<open>HeadingIndicator\<close> and the others) are not part of the
  sources at hand. An instrument is what the constructor of the display gives it: a size
  and a position, which the spec calls its centre point, and whether it is the little
  variant. Its \<^verbatim>\<open>update\<close> stores the latest values and leaves this geometry alone.\<close>

record indicator =
  ind_size :: real
  ind_position :: "real \<times> real"
  ind_little :: bool

record pfd =
  resolution :: "int \<times> int"
  max_fps :: "nat option"
  fps :: real
  size_pfd :: int
  unit :: real
  artifical_horizon :: indicator
  airspeed_indicator :: indicator
  altitude_indicator :: indicator
  vspeed_indicator :: indicator
  heading_indicator :: indicator
  masked :: bool
  little :: bool
  state :: "aircraft_state option"
  real_time :: "real option"
  sim_time :: "real option"

text \<open>The centre of \<^verbatim>\<open>surface.get_rect()\<close>, a rectangle at the origin with integer
  coordinates.\<close>

definition centerx :: "int \<times> int \<Rightarrow> real" where
  "centerx res = of_int (fst res div 2)"

definition centery :: "int \<times> int \<Rightarrow> real" where
  "centery res = of_int (snd res div 2)"

text \<open>\<^verbatim>\<open>PrimaryFlightDisplay.__init__\<close>. The right edge of the altitude tape's
  background, \<open>background_right\<close>, comes from the instrument and is a parameter. A surface
  of negative width or height is refused. The denominators here are the literals of the
  source.\<close>

definition pfd_init ::
  "int \<times> int \<Rightarrow> nat option \<Rightarrow> bool \<Rightarrow> bool \<Rightarrow> (indicator \<Rightarrow> real) \<Rightarrow> py_error + pfd" where
  "pfd_init res mfps msk ltl background_right =
     (if fst res < 0 \<or> snd res < 0 then Inl InvalidResolution
      else
        (let sz = min (fst res) (snd res);
             u = of_int sz / 16;
             horizon = \<lparr>ind_size = of_int sz / 2, ind_position = (centerx res, centery res),
                        ind_little = False\<rparr>;
             asi = \<lparr>ind_size = of_int sz / 2,
                    ind_position = (centerx res - u * 5, centery res), ind_little = False\<rparr>;
             alt = \<lparr>ind_size = of_int sz / 2,
                    ind_position = (centerx res + u * 5, centery res), ind_little = False\<rparr>;
             vsi = \<lparr>ind_size = of_int sz / 2.5,
                    ind_position = (background_right alt + of_int sz / 100, centery res),
                    ind_little = False\<rparr>;
             hdg = \<lparr>ind_size = of_int sz / 2,
                    ind_position = (centerx res, centery res + u * 5), ind_little = False\<rparr>;
             asi' = (if ltl then asi\<lparr>ind_little := True\<rparr> else asi);
             alt' = (if ltl then alt\<lparr>ind_little := True\<rparr> else alt);
             vsi' = (if ltl
                     then \<lparr>ind_size = of_int sz / 2.5,
                           ind_position = (background_right alt' + of_int sz / 100, centery res),
                           ind_little = True\<rparr>
                     else vsi)
         in Inr \<lparr>resolution = res, max_fps = mfps, fps = 0, size_pfd = sz, unit = u,
                 artifical_horizon = horizon, airspeed_indicator = asi',
                 altitude_indicator = alt', vspeed_indicator = vsi',
                 heading_indicator = hdg, masked = msk, little = ltl,
                 state = None, real_time = None, sim_time = None\<rparr>))"

text \<open>The methods that run in every frame: \<^verbatim>\<open>tick\<close> stores the measured frame rate,
  \<^verbatim>\<open>update\<close> stores the state and the two times, \<^verbatim>\<open>draw\<close> paints the surface and
  assigns no attribute.\<close>

definition pfd_tick :: "real \<Rightarrow> pfd \<Rightarrow> pfd" where
  "pfd_tick measured p = p\<lparr>fps := measured\<rparr>"

definition pfd_update :: "aircraft_state \<Rightarrow> real option \<Rightarrow> real option \<Rightarrow> pfd \<Rightarrow> pfd" where
  "pfd_update st rt stime p = p\<lparr>state := Some st, real_time := rt, sim_time := stime\<rparr>"

definition pfd_draw :: "pfd \<Rightarrow> pfd" where
  "pfd_draw p = p"

text \<open>The display calls of one frame of \<^verbatim>\<open>example.py\<close>.\<close>

definition render :: "real \<Rightarrow> real \<Rightarrow> sim \<Rightarrow> pfd \<Rightarrow> pfd" where
  "render measured stime s p =
     pfd_draw (pfd_update (snapshot s) (Some stime) None (pfd_tick measured p))"

section \<open>Properties\<close>

subsection \<open>The guarded divisions return\<close>


lemma py_div_nz: "b \<noteq> 0 \<Longrightarrow> py_div a b = Inr (a / b)"
  by (simp add: py_div_def)

lemma g_denominator_pos: "0.01 \<le> max 0.01 (cos (radians b))"
  by simp

lemma compute_g_Inr: "compute_g b = Inr (1 / max 0.01 (cos (radians b)))"
proof -
  have "(0::real) < max 0.01 (cos (radians b))"
    by (simp add: less_max_iff_disj)
  then have "max 0.01 (cos (radians b)) \<noteq> 0"
    by simp
  then show ?thesis by (simp add: compute_g_def py_div_nz)
qed

lemma turn_denominator_pos: "1 \<le> max a (1::real)"
  by simp

lemma pow2_pos: "0 < pow2 e"
  by (simp add: pow2_def)

lemma pow2_powr: "pow2 e = 2 powr of_int e"
  by (simp add: pow2_def powr_real_of_int inverse_eq_divide)

lemma binade_eq:
  assumes "pow2 k \<le> \<bar>x\<bar>" and "\<bar>x\<bar> < pow2 (k + 1)"
  shows "binade x = k"
proof -
  have "0 < \<bar>x\<bar>"
    using assms(1) pow2_pos [of k] by linarith
  then show ?thesis
    unfolding binade_def using assms
    by (simp add: floor_log_eq_powr_iff pow2_powr)
qed

lemma f64_eval:
  assumes "pow2 k \<le> \<bar>x\<bar>" and "\<bar>x\<bar> < pow2 (k + 1)" and "- 1022 \<le> k"
  shows "f64 x = of_int (round_half_even (x / pow2 (k - 52))) * pow2 (k - 52)"
proof -
  have "x \<noteq> 0"
    using assms(1) pow2_pos [of k] by auto
  moreover have "max (binade x) (- 1022) = k"
    using binade_eq [OF assms(1,2)] assms(3) by simp
  ultimately show ?thesis
    by (simp add: f64_def Let_def)
qed

lemma round_half_even_floor: "\<lfloor>y\<rfloor> \<le> round_half_even y \<and> round_half_even y \<le> \<lfloor>y\<rfloor> + 1"
  by (simp add: round_half_even_def Let_def)

lemma round_half_even_ge:
  assumes "of_int n \<le> y"
  shows "n \<le> round_half_even y"
proof -
  have "n \<le> \<lfloor>y\<rfloor>" using assms by (simp add: le_floor_iff)
  then show ?thesis using round_half_even_floor [of y] by linarith
qed

lemma round_half_even_le:
  assumes "y \<le> of_int n"
  shows "round_half_even y \<le> n"
proof (cases "y = of_int n")
  case True
  then show ?thesis by (simp add: round_half_even_def)
next
  case False
  then have "y < of_int n" using assms by simp
  then have "\<lfloor>y\<rfloor> < n" by (simp add: floor_less_iff)
  then show ?thesis using round_half_even_floor [of y] by linarith
qed

lemma f64_range_360:
  assumes "0 < y" and "y < 360"
  shows "0 \<le> f64 y \<and> f64 y \<le> 360"
proof -
  have "log 2 y < 9"
    using assms by (simp add: log_less_iff)
  then have "binade y \<le> 8"
    using assms(1) by (simp add: binade_def floor_le_iff)
  then have e: "max (binade y) (- 1022) - 52 \<le> - 44"
    by simp
  define n where "n = nat (- (max (binade y) (- 1022) - 52))"
  have n: "44 \<le> n"
    using e by (simp add: n_def)
  have q: "pow2 (max (binade y) (- 1022) - 52) = 1 / 2 ^ n"
    using e by (simp add: pow2_def n_def)
  have f: "f64 y = of_int (round_half_even (y * 2 ^ n)) / 2 ^ n"
    using assms(1) by (simp add: f64_def q)
  have "0 \<le> y * 2 ^ n"
    using assms(1) by simp
  then have "of_int 0 \<le> y * 2 ^ n" by simp
  then have lo: "0 \<le> round_half_even (y * 2 ^ n)"
    by (rule round_half_even_ge)
  have "y * 2 ^ n \<le> 360 * 2 ^ n"
    using assms(2) by simp
  then have "y * 2 ^ n \<le> of_int (360 * 2 ^ n)"
    by simp
  then have hi: "round_half_even (y * 2 ^ n) \<le> 360 * 2 ^ n"
    by (rule round_half_even_le)
  have "real_of_int (round_half_even (y * 2 ^ n)) \<le> real_of_int (360 * 2 ^ n)"
    using hi by (simp only: of_int_le_iff)
  then have "real_of_int (round_half_even (y * 2 ^ n)) / 2 ^ n \<le> 360"
    by (simp add: field_simps)
  moreover have "0 \<le> real_of_int (round_half_even (y * 2 ^ n)) / 2 ^ n"
    using lo by simp
  ultimately show ?thesis
    unfolding f by simp
qed

lemma f64_near_360:
  assumes "360 - 1 / 2 ^ 45 \<le> y" and "y < 360"
  shows "f64 y = 360"
proof -
  have a: "pow2 8 \<le> \<bar>y\<bar>" "\<bar>y\<bar> < pow2 (8 + 1)"
    using assms by (simp_all add: pow2_def)
  have f: "f64 y = of_int (round_half_even (y * 2 ^ 44)) / 2 ^ 44"
    using f64_eval [OF a] by (simp add: pow2_def)
  define z where "z = y * 2 ^ 44"
  have z: "360 * 2 ^ 44 - 1 / 2 \<le> z" "z < 360 * 2 ^ 44"
    using assms by (simp_all add: z_def field_simps)
  have fl: "\<lfloor>z\<rfloor> = 360 * 2 ^ 44 - 1"
    using z by (simp add: floor_eq_iff)
  have od: "odd (360 * 2 ^ 44 - 1 :: int)"
    by simp
  have "round_half_even z = 360 * 2 ^ 44"
    using z od unfolding round_half_even_def fl Let_def by auto
  then show ?thesis
    unfolding f z_def [symmetric] by simp
qed

lemma py_mod_360: "py_mod x 360 = Inr (projr (py_mod x 360))"
  by (simp add: py_mod_def Let_def)

lemma py_mod_360_nonneg:
  assumes "0 \<le> x"
  shows "py_mod x 360 = Inr (x - 360 * of_int \<lfloor>x / 360\<rfloor>)"
proof -
  have "of_int \<lfloor>x / 360\<rfloor> \<le> x / 360" by (rule of_int_floor_le)
  then have "0 \<le> x - 360 * of_int \<lfloor>x / 360\<rfloor>" by simp
  then show ?thesis
    using assms by (simp add: py_mod_def trunc_def Let_def)
qed

lemma py_mod_360_range:
  assumes "py_mod x 360 = Inr h"
  shows "0 \<le> h \<and> h \<le> 360"
proof (cases "0 \<le> x")
  case True
  have "x / 360 < of_int \<lfloor>x / 360\<rfloor> + 1" by linarith
  moreover have "of_int \<lfloor>x / 360\<rfloor> \<le> x / 360" by (rule of_int_floor_le)
  ultimately show ?thesis
    using assms unfolding py_mod_360_nonneg [OF True] by (simp add: field_simps)
next
  case False
  define m where "m = x - 360 * of_int \<lceil>x / 360\<rceil>"
  have c1: "x / 360 \<le> of_int \<lceil>x / 360\<rceil>" by (rule le_of_int_ceiling)
  have c2: "of_int \<lceil>x / 360\<rceil> < x / 360 + 1" by linarith
  have m: "m \<le> 0" "- 360 < m"
    unfolding m_def using c1 c2 by linarith+
  have "h = (if m \<noteq> 0 then f64 (m + 360) else m)"
    using assms False m(1) by (auto simp: py_mod_def trunc_def Let_def m_def)
  then show ?thesis
    using f64_range_360 [of "m + 360"] m by (cases "m = 0") auto
qed

lemma py_mod_360_tiny_negative:
  assumes "- (1 / 2 ^ 45) \<le> x" and "x < 0"
  shows "py_mod x 360 = Inr 360"
proof -
  have "- 1 < x / 360" "x / 360 \<le> 0"
    using assms by simp_all
  then have "\<lceil>x / 360\<rceil> = 0"
    by (simp add: ceiling_eq_iff)
  then have "py_mod x 360 = Inr (f64 (x + 360))"
    using assms(2) by (simp add: py_mod_def trunc_def Let_def)
  moreover have "f64 (x + 360) = 360"
    using assms by (intro f64_near_360) simp_all
  ultimately show ?thesis by simp
qed

lemma buttons_eq:
  "buttons = [(CLIMB, Rect 850 100 300 60), (DESCENT, Rect 850 180 300 60),
              (CRUISE, Rect 850 260 300 60), (ROLLS, Rect 850 340 300 60)]"
  by (simp add: buttons_def MODES_def PFD_WIDTH_def)

lemma climb_Inr:
  "climb dt s =
     Inr (s\<lparr>roll := smooth (roll s) 0 2 dt,
            pitch := smooth (pitch s) 7 1.5 dt,
            vspeed := smooth (vspeed s) 700 1.5 dt,
            altitude := altitude s + smooth (vspeed s) 700 1.5 dt / 60 * dt,
            airspeed := update_airspeed (airspeed s) (smooth (pitch s) 7 1.5 dt) (IAS_CMD s - 10) dt,
            mode := (if altitude s + smooth (vspeed s) 700 1.5 dt / 60 * dt \<ge> ALTITUDE_CMD s - 80
                     then ALT_CAPTURE else mode s)\<rparr>)"
  by (simp add: climb_def py_div_nz Let_def PITCH_CLIMB_def VS_CLIMB_def ALT_CAPTURE_BAND_def)

lemma descent_Inr:
  "descent dt s =
     Inr (s\<lparr>roll := smooth (roll s) 0 2 dt,
            pitch := smooth (pitch s) (- 4) 1.5 dt,
            vspeed := smooth (vspeed s) (- 600) 1.5 dt,
            altitude := altitude s + smooth (vspeed s) (- 600) 1.5 dt / 60 * dt,
            airspeed := update_airspeed (airspeed s) (smooth (pitch s) (- 4) 1.5 dt) (IAS_CMD s + 5) dt,
            mode := (if altitude s + smooth (vspeed s) (- 600) 1.5 dt / 60 * dt \<le> ALTITUDE_CMD s + 80
                     then ALT_CAPTURE else mode s)\<rparr>)"
  by (simp add: descent_def py_div_nz Let_def PITCH_DESCENT_def VS_DESCENT_def ALT_CAPTURE_BAND_def)

lemma alt_capture_Inr:
  "alt_capture dt s =
     (let vs_cmd = clip ((ALTITUDE_CMD s - altitude s) * 5) (- 500) 500;
          vspeed' = smooth (vspeed s) vs_cmd 2 dt;
          pitch' = smooth (pitch s) (vs_cmd / 150) 2 dt
      in if \<bar>ALTITUDE_CMD s - altitude s\<bar> < 5
         then Inr (s\<lparr>roll := smooth (roll s) 0 2.5 dt, altitude := ALTITUDE_CMD s,
                     airspeed := IAS_CMD s, pitch := 0, vspeed := 0, mode := CRUISE\<rparr>)
         else Inr (s\<lparr>roll := smooth (roll s) 0 2.5 dt, vspeed := vspeed', pitch := pitch',
                     altitude := altitude s + vspeed' / 25 * dt,
                     airspeed := update_airspeed (airspeed s) pitch' (IAS_CMD s) dt\<rparr>))"
  by (simp add: alt_capture_def py_div_nz Let_def)

lemma rolls_Inr:
  "rolls dt s =
     (let roll' = smooth (roll s) (of_int (bank_angle s)) 1.5 dt;
          g_factor' = smooth (g_factor s) (1 / max 0.01 (cos (radians \<bar>roll'\<bar>))) 3 dt;
          pitch' = smooth (pitch s) (3 + (g_factor' - 1) * 3) 1.5 dt
      in Inr (s\<lparr>roll := roll', g_factor := g_factor', pitch := pitch',
                airspeed := update_airspeed (airspeed s) pitch' (IAS_CMD s - 5) dt\<rparr>))"
  by (simp add: rolls_def compute_g_Inr Let_def)

lemma flight_logic_total: "\<exists>s'. flight_logic dt s = Inr s'"
  by (simp add: flight_logic_def climb_Inr descent_Inr alt_capture_Inr rolls_Inr cruise_def Let_def)

lemma heading_dynamics_active:
  assumes "\<bar>roll s\<bar> > 1 \<and> airspeed s > 30"
  shows "\<exists>h. py_mod (heading s + 1091 * tan (radians (roll s)) / max (airspeed s) 1 * dt) 360
               = Inr h \<and>
             heading_dynamics dt s = Inr (s\<lparr>heading := h\<rparr>)"
proof -
  let ?x = "heading s + 1091 * tan (radians (roll s)) / max (airspeed s) 1 * dt"
  have "max (airspeed s) 1 \<noteq> 0"
    using turn_denominator_pos [of "airspeed s"] by linarith
  then have d: "py_div (1091 * tan (radians (roll s))) (max (airspeed s) 1)
                  = Inr (1091 * tan (radians (roll s)) / max (airspeed s) 1)"
    by (rule py_div_nz)
  obtain h where h: "py_mod ?x 360 = Inr h"
    using py_mod_360 by blast
  have "heading_dynamics dt s = Inr (s\<lparr>heading := h\<rparr>)"
    unfolding heading_dynamics_def using assms by (simp only: simp_thms if_True d sum.case h)
  then show ?thesis using h by blast
qed

lemma heading_dynamics_idle:
  assumes "\<not> (\<bar>roll s\<bar> > 1 \<and> airspeed s > 30)"
  shows "heading_dynamics dt s = Inr s"
  unfolding heading_dynamics_def using assms by (simp only: if_False)

lemma heading_dynamics_Inr:
  "heading_dynamics dt s =
     Inr (if \<bar>roll s\<bar> > 1 \<and> airspeed s > 30
          then s\<lparr>heading :=
                   projr (py_mod (heading s + 1091 * tan (radians (roll s)) / max (airspeed s) 1 * dt) 360)\<rparr>
          else s)"
proof (cases "\<bar>roll s\<bar> > 1 \<and> airspeed s > 30")
  case True
  obtain h where h: "py_mod (heading s + 1091 * tan (radians (roll s)) / max (airspeed s) 1 * dt) 360
               = Inr h" "heading_dynamics dt s = Inr (s\<lparr>heading := h\<rparr>)"
    using heading_dynamics_active [OF True] by blast
  show ?thesis
    using True by (simp only: h simp_thms if_True sum.sel)
next
  case False
  then show ?thesis
    by (simp only: heading_dynamics_idle [OF False] if_False)
qed

lemma update_total: "\<exists>s'. update dt s = Inr s'"
proof -
  obtain s1 where "flight_logic dt s = Inr s1"
    using flight_logic_total by blast
  then show ?thesis
    by (simp add: update_def heading_dynamics_Inr)
qed

subsection \<open>Smoothing\<close>







subsection \<open>Events\<close>

lemmas rect_defs = collidepoint_def Rect_def ALT_UP_def ALT_DN_def IAS_UP_def IAS_DN_def
  TURN_UP_def TURN_DN_def PFD_WIDTH_def

lemma press_buttons_hit:
  assumes "(m, r) \<in> set buttons" and "collidepoint r pos"
  shows "press_buttons buttons pos s = s\<lparr>prev_mode := mode s, mode := m\<rparr>"
proof -
  consider "m = CLIMB" "r = Rect 850 100 300 60" | "m = DESCENT" "r = Rect 850 180 300 60"
    | "m = CRUISE" "r = Rect 850 260 300 60" | "m = ROLLS" "r = Rect 850 340 300 60"
    using assms(1) by (auto simp: buttons_eq)
  then show ?thesis
  proof cases
    case 1
    then have "100 \<le> snd pos \<and> snd pos < 160 \<and> 850 \<le> fst pos \<and> fst pos < 1150"
      using assms(2) by (simp add: rect_defs)
    then show ?thesis using 1 by (simp add: buttons_eq rect_defs)
  next
    case 2
    then have "180 \<le> snd pos \<and> snd pos < 240 \<and> 850 \<le> fst pos \<and> fst pos < 1150"
      using assms(2) by (simp add: rect_defs)
    then show ?thesis using 2 by (simp add: buttons_eq rect_defs)
  next
    case 3
    then have "260 \<le> snd pos \<and> snd pos < 320 \<and> 850 \<le> fst pos \<and> fst pos < 1150"
      using assms(2) by (simp add: rect_defs)
    then show ?thesis using 3 by (simp add: buttons_eq rect_defs)
  next
    case 4
    then have "340 \<le> snd pos \<and> snd pos < 400 \<and> 850 \<le> fst pos \<and> fst pos < 1150"
      using assms(2) by (simp add: rect_defs)
    then show ?thesis using 4 by (simp add: buttons_eq rect_defs)
  qed
qed

lemma press_buttons_below:
  assumes "400 \<le> snd pos"
  shows "press_buttons buttons pos s = s"
  using assms by (simp add: buttons_eq rect_defs)

lemma press_buttons_above:
  assumes "(m, r) \<in> set buttons" and "collidepoint r pos"
  shows "snd pos < 400"
  using assms by (auto simp: buttons_eq rect_defs)

lemma press_buttons_mode:
  "mode (press_buttons bs pos s) \<in> insert (mode s) (fst ` set bs)"
proof (induction bs arbitrary: s)
  case Nil
  then show ?case by simp
next
  case (Cons b bs)
  obtain m r where b: "b = (m, r)" by (cases b)
  show ?case
    using Cons.IH [of "if collidepoint r pos then s\<lparr>prev_mode := mode s, mode := m\<rparr> else s"]
    by (simp add: b split: if_splits) blast+
qed

lemma buttons_modes: "fst ` set buttons = {CLIMB, DESCENT, CRUISE, ROLLS}"
  by (auto simp: buttons_eq)

lemma alt_knob_above: "snd pos < 460 \<Longrightarrow> alt_knob pos s = s"
  by (simp add: alt_knob_def rect_defs)

lemma alt_knob_capture: "mode (alt_knob pos s) = ALT_CAPTURE \<Longrightarrow> mode s = ALT_CAPTURE"
  by (auto simp: alt_knob_def Let_def split: if_splits)

lemma alt_knob_prev_mode: "prev_mode (alt_knob pos s) = prev_mode s"
  by (simp add: alt_knob_def Let_def)

lemma alt_knob_up:
  assumes "collidepoint ALT_UP pos"
  shows "alt_knob pos s =
          (if mode s = CRUISE then s\<lparr>ALTITUDE_CMD := ALTITUDE_CMD s + 100, mode := CLIMB\<rparr>
           else s\<lparr>ALTITUDE_CMD := ALTITUDE_CMD s + 100\<rparr>)"
proof -
  have "\<not> collidepoint ALT_DN pos"
    using assms by (auto simp: rect_defs)
  then show ?thesis using assms by (simp add: alt_knob_def Let_def)
qed

lemma alt_knob_dn:
  assumes "collidepoint ALT_DN pos"
  shows "alt_knob pos s =
          (if mode s = CRUISE then s\<lparr>ALTITUDE_CMD := ALTITUDE_CMD s - 100, mode := DESCENT\<rparr>
           else s\<lparr>ALTITUDE_CMD := ALTITUDE_CMD s - 100\<rparr>)"
proof -
  have "\<not> collidepoint ALT_UP pos"
    using assms by (auto simp: rect_defs)
  then show ?thesis using assms by (simp add: alt_knob_def Let_def)
qed

lemma ias_knob_above: "snd pos < 560 \<Longrightarrow> ias_knob pos s = s"
  by (simp add: ias_knob_def rect_defs)

lemma ias_knob_mode: "mode (ias_knob pos s) = mode s"
  by (simp add: ias_knob_def Let_def)

lemma turn_knob_above: "snd pos < 660 \<Longrightarrow> turn_knob pos s = Inr s"
  by (simp add: turn_knob_def rect_defs)

lemma turn_up_mode: "turn_up s = Inr s' \<Longrightarrow> mode s' = mode s"
  by (auto simp: turn_up_def split: sum.splits if_splits)

lemma turn_dn_mode: "turn_dn s = Inr s' \<Longrightarrow> mode s' = mode s"
  by (auto simp: turn_dn_def split: sum.splits if_splits)

lemma turn_knob_mode: "turn_knob pos s = Inr s' \<Longrightarrow> mode s' = mode s"
  by (auto simp: turn_knob_def split: sum.splits if_splits dest: turn_up_mode turn_dn_mode)
    (metis turn_up_mode turn_dn_mode)

lemma handle_event_capture:
  assumes "handle_event e s = Inr s'" and "mode s' = ALT_CAPTURE"
  shows "mode s = ALT_CAPTURE"
proof (cases e)
  case QUIT
  with assms show ?thesis by auto
next
  case (MOUSEBUTTONDOWN pos)
  let ?s1 = "press_buttons buttons pos s"
  have "mode (ias_knob pos (alt_knob pos ?s1)) = ALT_CAPTURE"
    using assms turn_knob_mode [of pos "ias_knob pos (alt_knob pos ?s1)" s']
    by (simp add: MOUSEBUTTONDOWN)
  then have "mode ?s1 = ALT_CAPTURE"
    by (simp add: ias_knob_mode alt_knob_capture)
  then show ?thesis
    using press_buttons_mode [of buttons pos s] by (auto simp: buttons_modes)
next
  case OTHER
  with assms show ?thesis by auto
qed

lemma handle_events_capture:
  "handle_events es s = Inr s' \<Longrightarrow> mode s' = ALT_CAPTURE \<Longrightarrow> mode s = ALT_CAPTURE"
proof (induction es arbitrary: s)
  case Nil
  then show ?case by simp
next
  case (Cons e es)
  then obtain s1 where s1: "handle_event e s = Inr s1" "handle_events es s1 = Inr s'"
    by (auto split: sum.splits)
  then have "mode s1 = ALT_CAPTURE" using Cons by blast
  then show ?case using s1 handle_event_capture by blast
qed

text \<open>
  C5. An altitude-setpoint click in mode \<open>CRUISE\<close> selects \<open>CLIMB\<close> when it is the
  upward increment (\<open>+100\<close>) and \<open>DESCENT\<close> when it is the downward one (\<open>-100\<close>); in
  each of the modes \<open>CLIMB\<close>, \<open>DESCENT\<close>, \<open>ALT_CAPTURE\<close> and \<open>ROLLS\<close> the click changes
  the commanded altitude and leaves the mode as it was. A click inside one of the two
  rectangles hits no other control, so this is the whole effect of the event on the mode.
\<close>

theorem alt_knob_mode_coupling:
  "(collidepoint ALT_UP pos \<longrightarrow>
      (\<exists>s'. handle_event (MOUSEBUTTONDOWN pos) s = Inr s' \<and>
            ALTITUDE_CMD s' = ALTITUDE_CMD s + 100 \<and>
            mode s' = (if mode s = CRUISE then CLIMB else mode s))) \<and>
   (collidepoint ALT_DN pos \<longrightarrow>
      (\<exists>s'. handle_event (MOUSEBUTTONDOWN pos) s = Inr s' \<and>
            ALTITUDE_CMD s' = ALTITUDE_CMD s - 100 \<and>
            mode s' = (if mode s = CRUISE then DESCENT else mode s)))"
proof (intro conjI impI)
  assume hit: "collidepoint ALT_UP pos"
  then have y: "460 \<le> snd pos" "snd pos < 500"
    by (auto simp: rect_defs)
  have "handle_event (MOUSEBUTTONDOWN pos) s = Inr (alt_knob pos s)"
    using y by (simp add: press_buttons_below ias_knob_above turn_knob_above)
  then show "\<exists>s'. handle_event (MOUSEBUTTONDOWN pos) s = Inr s' \<and>
            ALTITUDE_CMD s' = ALTITUDE_CMD s + 100 \<and>
            mode s' = (if mode s = CRUISE then CLIMB else mode s)"
    by (simp add: alt_knob_up [OF hit])
next
  assume hit: "collidepoint ALT_DN pos"
  then have y: "460 \<le> snd pos" "snd pos < 500"
    by (auto simp: rect_defs)
  have "handle_event (MOUSEBUTTONDOWN pos) s = Inr (alt_knob pos s)"
    using y by (simp add: press_buttons_below ias_knob_above turn_knob_above)
  then show "\<exists>s'. handle_event (MOUSEBUTTONDOWN pos) s = Inr s' \<and>
            ALTITUDE_CMD s' = ALTITUDE_CMD s - 100 \<and>
            mode s' = (if mode s = CRUISE then DESCENT else mode s)"
    by (simp add: alt_knob_dn [OF hit])
qed

theorem alt_knob_mode_coupling_witness:
  "collidepoint ALT_UP (950, 480) \<and>
   (\<exists>s'. handle_event (MOUSEBUTTONDOWN (950, 480)) init = Inr s' \<and>
         ALTITUDE_CMD s' = 1100 \<and> mode s' = CLIMB) \<and>
   collidepoint ALT_DN (1050, 480) \<and>
   (\<exists>s'. handle_event (MOUSEBUTTONDOWN (1050, 480)) (init\<lparr>mode := ROLLS\<rparr>) = Inr s' \<and>
         ALTITUDE_CMD s' = 900 \<and> mode s' = ROLLS)"
proof -
  have up: "collidepoint ALT_UP (950, 480)" and dn: "collidepoint ALT_DN (1050, 480)"
    by (simp_all add: rect_defs)
  show ?thesis
    using alt_knob_mode_coupling [of "(950, 480)" init]
      alt_knob_mode_coupling [of "(1050, 480)" "init\<lparr>mode := ROLLS\<rparr>"] up dn
    by (simp add: init_def)
qed

text \<open>
  The altitude knob changes the mode without recording the mode it replaces. From the
  initial state, the \<open>ROLLS\<close> button, the \<open>CRUISE\<close> button and then \<open>ALT +100\<close>: the
  last click switches \<open>CRUISE\<close> to \<open>CLIMB\<close>, and the recorded previous mode is still
  \<open>ROLLS\<close>, not \<open>CRUISE\<close>.
\<close>

theorem prev_mode_alt_knob_counterexample:
  "handle_events [MOUSEBUTTONDOWN (900, 350), MOUSEBUTTONDOWN (900, 270)] init
     = Inr (init\<lparr>prev_mode := ROLLS, mode := CRUISE\<rparr>) \<and>
   handle_event (MOUSEBUTTONDOWN (950, 480)) (init\<lparr>prev_mode := ROLLS, mode := CRUISE\<rparr>)
     = Inr (init\<lparr>prev_mode := ROLLS, mode := CLIMB, ALTITUDE_CMD := 1100\<rparr>) \<and>
   prev_mode (init\<lparr>prev_mode := ROLLS, mode := CLIMB, ALTITUDE_CMD := 1100\<rparr>)
     \<noteq> mode (init\<lparr>prev_mode := ROLLS, mode := CRUISE\<rparr>)"
  by (simp add: buttons_eq rect_defs alt_knob_def ias_knob_def turn_knob_def init_def)

text \<open>
  C7, as the code has it. A click on a flight-mode button records as previous mode the
  mode that was active immediately before and selects the mode of the button. The
  automatic switch that an altitude-setpoint click triggers in \<open>CRUISE\<close> changes the mode
  and leaves the recorded previous mode as it was.
\<close>

theorem prev_mode_button_press:
  "((m, r) \<in> set buttons \<and> collidepoint r pos \<longrightarrow>
      (\<exists>s'. handle_event (MOUSEBUTTONDOWN pos) s = Inr s' \<and>
            prev_mode s' = mode s \<and> mode s' = m)) \<and>
   (collidepoint ALT_UP pos \<or> collidepoint ALT_DN pos \<longrightarrow>
      (\<exists>s'. handle_event (MOUSEBUTTONDOWN pos) s = Inr s' \<and>
            prev_mode s' = prev_mode s \<and>
            mode s' = (if mode s = CRUISE
                       then (if collidepoint ALT_UP pos then CLIMB else DESCENT)
                       else mode s)))"
proof (intro conjI impI)
  assume hit: "(m, r) \<in> set buttons \<and> collidepoint r pos"
  then have y: "snd pos < 400"
    using press_buttons_above by blast
  have "handle_event (MOUSEBUTTONDOWN pos) s = Inr (s\<lparr>prev_mode := mode s, mode := m\<rparr>)"
    using y press_buttons_hit [of m r pos s] hit
    by (simp add: alt_knob_above ias_knob_above turn_knob_above)
  then show "\<exists>s'. handle_event (MOUSEBUTTONDOWN pos) s = Inr s' \<and>
            prev_mode s' = mode s \<and> mode s' = m"
    by simp
next
  assume hit: "collidepoint ALT_UP pos \<or> collidepoint ALT_DN pos"
  then have y: "460 \<le> snd pos" "snd pos < 500"
    by (auto simp: rect_defs)
  have ev: "handle_event (MOUSEBUTTONDOWN pos) s = Inr (alt_knob pos s)"
    using y by (simp add: press_buttons_below ias_knob_above turn_knob_above)
  have "mode (alt_knob pos s) =
          (if mode s = CRUISE then (if collidepoint ALT_UP pos then CLIMB else DESCENT)
           else mode s)"
    using hit by (auto simp: alt_knob_up alt_knob_dn)
  then show "\<exists>s'. handle_event (MOUSEBUTTONDOWN pos) s = Inr s' \<and>
            prev_mode s' = prev_mode s \<and>
            mode s' = (if mode s = CRUISE
                       then (if collidepoint ALT_UP pos then CLIMB else DESCENT)
                       else mode s)"
    using ev by (simp add: alt_knob_prev_mode)
qed

theorem prev_mode_button_press_witness:
  "(ROLLS, Rect 850 340 300 60) \<in> set buttons \<and> collidepoint (Rect 850 340 300 60) (900, 350) \<and>
   (\<exists>s'. handle_event (MOUSEBUTTONDOWN (900, 350)) init = Inr s' \<and>
         prev_mode s' = CRUISE \<and> mode s' = ROLLS) \<and>
   collidepoint ALT_UP (950, 480) \<and>
   (\<exists>s'. handle_event (MOUSEBUTTONDOWN (950, 480)) (init\<lparr>prev_mode := ROLLS\<rparr>) = Inr s' \<and>
         prev_mode s' = ROLLS \<and> mode s' = CLIMB)"
proof -
  have b: "(ROLLS, Rect 850 340 300 60) \<in> set buttons"
    by (simp add: buttons_eq)
  have c: "collidepoint (Rect 850 340 300 60) (900, 350)" "collidepoint ALT_UP (950, 480)"
    by (simp_all add: rect_defs)
  show ?thesis
    using prev_mode_button_press [of ROLLS "Rect 850 340 300 60" "(900, 350)" init]
      prev_mode_button_press [of ROLLS "Rect 850 340 300 60" "(950, 480)" "init\<lparr>prev_mode := ROLLS\<rparr>"]
      b c
    by (simp add: init_def)
qed


subsection \<open>Entering altitude capture\<close>

lemma update_after_flight_logic:
  assumes "flight_logic dt s = Inr s1" and "update dt s = Inr s2"
  shows "mode s2 = mode s1" "altitude s2 = altitude s1" "vspeed s2 = vspeed s1"
    "roll s2 = roll s1" "pitch s2 = pitch s1" "airspeed s2 = airspeed s1"
    "ALTITUDE_CMD s2 = ALTITUDE_CMD s1" "IAS_CMD s2 = IAS_CMD s1"
    "running s2 = running s1" "prev_mode s2 = prev_mode s1" "bank_angle s2 = bank_angle s1"
  using assms
  by (auto simp: update_def heading_dynamics_Inr g_decay_def split: if_splits)

lemma flight_logic_enters_capture:
  assumes "flight_logic dt s = Inr s1" and "mode s1 = ALT_CAPTURE" and "mode s \<noteq> ALT_CAPTURE"
  shows "(mode s = CLIMB \<and> altitude s1 \<ge> ALTITUDE_CMD s - 80) \<or>
         (mode s = DESCENT \<and> altitude s1 \<le> ALTITUDE_CMD s + 80)"
proof (cases "mode s")
  case CLIMB
  then show ?thesis
    using assms by (auto simp: flight_logic_def climb_Inr split: if_splits)
next
  case DESCENT
  then show ?thesis
    using assms by (auto simp: flight_logic_def descent_Inr split: if_splits)
next
  case ALT_CAPTURE
  then show ?thesis using assms by simp
next
  case CRUISE
  then show ?thesis
    using assms by (auto simp: flight_logic_def cruise_def)
next
  case ROLLS
  then show ?thesis
    using assms by (auto simp: flight_logic_def rolls_Inr Let_def)
qed

lemma tick_Inr:
  "tick evs dt s = Inr s' \<Longrightarrow> \<exists>s0. handle_events evs s = Inr s0 \<and> update dt s0 = Inr s'"
  by (cases "handle_events evs s") (simp_all add: tick_def)

text \<open>
  C10. The mode becomes \<open>ALT_CAPTURE\<close> only by the internal transition from \<open>CLIMB\<close>,
  when the altitude after the update is at least the commanded altitude minus 80, or
  from \<open>DESCENT\<close>, when it is at most the commanded altitude plus 80. No event sets it:
  after any queue of events the mode is \<open>ALT_CAPTURE\<close> only if it was before, and the
  mode buttons offer \<open>CLIMB\<close>, \<open>DESCENT\<close>, \<open>CRUISE\<close> and \<open>ROLLS\<close> only.
\<close>

theorem alt_capture_only_internal:
  "(handle_events evs s = Inr s1 \<and> mode s1 = ALT_CAPTURE \<longrightarrow> mode s = ALT_CAPTURE) \<and>
   (update dt s1 = Inr s2 \<and> mode s2 = ALT_CAPTURE \<and> mode s1 \<noteq> ALT_CAPTURE \<longrightarrow>
      (mode s1 = CLIMB \<and> altitude s2 \<ge> ALTITUDE_CMD s1 - 80) \<or>
      (mode s1 = DESCENT \<and> altitude s2 \<le> ALTITUDE_CMD s1 + 80)) \<and>
   (tick evs dt s = Inr s' \<and> mode s' = ALT_CAPTURE \<and> mode s \<noteq> ALT_CAPTURE \<longrightarrow>
      (\<exists>s0. handle_events evs s = Inr s0 \<and>
         ((mode s0 = CLIMB \<and> altitude s' \<ge> ALTITUDE_CMD s0 - 80) \<or>
          (mode s0 = DESCENT \<and> altitude s' \<le> ALTITUDE_CMD s0 + 80)))) \<and>
   ALT_CAPTURE \<notin> set MODES \<and> ALT_CAPTURE \<notin> fst ` set buttons"
proof -
  have upd: "(mode a = CLIMB \<and> altitude b \<ge> ALTITUDE_CMD a - 80) \<or>
             (mode a = DESCENT \<and> altitude b \<le> ALTITUDE_CMD a + 80)"
    if "update dt a = Inr b" "mode b = ALT_CAPTURE" "mode a \<noteq> ALT_CAPTURE" for a b
  proof -
    obtain c where c: "flight_logic dt a = Inr c"
      using flight_logic_total by blast
    have "mode c = ALT_CAPTURE" "altitude b = altitude c"
      using update_after_flight_logic [OF c that(1)] that(2) by simp_all
    then show ?thesis
      using flight_logic_enters_capture [OF c _ that(3)] by simp
  qed
  have tck: "\<exists>s0. handle_events evs s = Inr s0 \<and>
         ((mode s0 = CLIMB \<and> altitude s' \<ge> ALTITUDE_CMD s0 - 80) \<or>
          (mode s0 = DESCENT \<and> altitude s' \<le> ALTITUDE_CMD s0 + 80))"
    if t: "tick evs dt s = Inr s'" and c: "mode s' = ALT_CAPTURE" and n: "mode s \<noteq> ALT_CAPTURE"
  proof -
    obtain s0 where s0: "handle_events evs s = Inr s0" "update dt s0 = Inr s'"
      using tick_Inr [OF t] by blast
    have "mode s0 \<noteq> ALT_CAPTURE"
      using handle_events_capture [OF s0(1)] n by blast
    then show ?thesis
      using upd [OF s0(2) c] s0(1) by blast
  qed
  show ?thesis
    using handle_events_capture [of evs s s1] upd [of s1 s2] tck
    by (simp add: MODES_def buttons_modes)
qed

theorem alt_capture_only_internal_witness:
  "\<exists>s'. tick [] (1/60) (init\<lparr>mode := CLIMB, ALTITUDE_CMD := 1080\<rparr>) = Inr s' \<and>
        mode s' = ALT_CAPTURE \<and> mode (init\<lparr>mode := CLIMB, ALTITUDE_CMD := 1080\<rparr>) \<noteq> ALT_CAPTURE \<and>
        (\<exists>s0. handle_events [] (init\<lparr>mode := CLIMB, ALTITUDE_CMD := 1080\<rparr>) = Inr s0 \<and>
           mode s0 = CLIMB \<and> altitude s' \<ge> ALTITUDE_CMD s0 - 80)"
proof -
  let ?s = "init\<lparr>mode := CLIMB, ALTITUDE_CMD := 1080\<rparr>"
  obtain s' where s': "tick [] (1/60) ?s = Inr s'"
    using update_total [of "1/60" ?s] by (auto simp: tick_def)
  have m: "mode s' = ALT_CAPTURE"
    using s' by (auto simp: tick_def update_def flight_logic_def climb_Inr heading_dynamics_Inr
        g_decay_def smooth_def init_def split: if_splits)
  have n: "mode ?s \<noteq> ALT_CAPTURE"
    by (simp add: init_def)
  show ?thesis
    using alt_capture_only_internal [of "[]" ?s ?s "1/60" ?s s'] s' m n
    by (auto simp: init_def)
qed

subsection \<open>Heading\<close>

lemma flight_logic_heading:
  assumes "flight_logic dt s = Inr s1"
  shows "heading s1 = heading s"
proof (cases "mode s")
  case CLIMB
  then show ?thesis using assms by (auto simp: flight_logic_def climb_Inr)
next
  case DESCENT
  then show ?thesis using assms by (auto simp: flight_logic_def descent_Inr)
next
  case ALT_CAPTURE
  then show ?thesis
    using assms by (auto simp: flight_logic_def alt_capture_Inr Let_def split: if_splits)
next
  case CRUISE
  then show ?thesis using assms by (auto simp: flight_logic_def cruise_def)
next
  case ROLLS
  then show ?thesis using assms by (auto simp: flight_logic_def rolls_Inr Let_def)
qed

lemma press_buttons_heading: "heading (press_buttons bs pos s) = heading s"
proof (induction bs arbitrary: s)
  case Nil
  then show ?case by simp
next
  case (Cons b bs)
  obtain m r where b: "b = (m, r)" by (cases b)
  show ?case
    using Cons.IH [of "if collidepoint r pos then s\<lparr>prev_mode := mode s, mode := m\<rparr> else s"]
    by (simp add: b)
qed

lemma alt_knob_heading: "heading (alt_knob pos s) = heading s"
  by (simp add: alt_knob_def Let_def)

lemma ias_knob_heading: "heading (ias_knob pos s) = heading s"
  by (simp add: ias_knob_def Let_def)

lemma turn_up_heading: "turn_up s = Inr s' \<Longrightarrow> heading s' = heading s"
  by (auto simp: turn_up_def split: sum.splits if_splits)

lemma turn_dn_heading: "turn_dn s = Inr s' \<Longrightarrow> heading s' = heading s"
  by (auto simp: turn_dn_def split: sum.splits if_splits)

lemma turn_knob_heading: "turn_knob pos s = Inr s' \<Longrightarrow> heading s' = heading s"
  by (auto simp: turn_knob_def split: sum.splits if_splits dest: turn_up_heading turn_dn_heading)
    (metis turn_up_heading turn_dn_heading)

lemma handle_event_heading:
  assumes "handle_event e s = Inr s'"
  shows "heading s' = heading s"
proof (cases e)
  case QUIT
  with assms show ?thesis by auto
next
  case (MOUSEBUTTONDOWN pos)
  then show ?thesis
    using assms turn_knob_heading [of pos "ias_knob pos (alt_knob pos (press_buttons buttons pos s))" s']
    by (simp add: ias_knob_heading alt_knob_heading press_buttons_heading)
next
  case OTHER
  with assms show ?thesis by auto
qed

lemma handle_events_heading:
  "handle_events es s = Inr s' \<Longrightarrow> heading s' = heading s"
proof (induction es arbitrary: s)
  case Nil
  then show ?case by simp
next
  case (Cons e es)
  then obtain s1 where s1: "handle_event e s = Inr s1" "handle_events es s1 = Inr s'"
    by (auto split: sum.splits)
  then show ?case
    using Cons.IH [OF s1(2)] handle_event_heading [OF s1(1)] by simp
qed

lemma g_decay_fields:
  "roll (g_decay dt s) = roll s" "airspeed (g_decay dt s) = airspeed s"
  "heading (g_decay dt s) = heading s" "mode (g_decay dt s) = mode s"
  by (simp_all add: g_decay_def)

lemma update_heading:
  assumes "update dt s = Inr s'"
  shows "if \<bar>roll s'\<bar> > 1 \<and> airspeed s' > 30
         then py_mod (heading s + 1091 * tan (radians (roll s')) / max (airspeed s') 1 * dt) 360
                = Inr (heading s')
         else heading s' = heading s"
proof -
  obtain s1 where s1: "flight_logic dt s = Inr s1"
    using flight_logic_total by blast
  have h: "heading s1 = heading s"
    using flight_logic_heading [OF s1] .
  have r: "roll s' = roll s1" "airspeed s' = airspeed s1"
    using update_after_flight_logic [OF s1 assms] by simp_all
  have hd: "heading_dynamics dt (g_decay dt s1) = Inr s'"
    using assms s1 by (simp add: update_def)
  show ?thesis
  proof (cases "\<bar>roll s1\<bar> > 1 \<and> airspeed s1 > 30")
    case True
    then have "\<bar>roll (g_decay dt s1)\<bar> > 1 \<and> airspeed (g_decay dt s1) > 30"
      by (simp only: g_decay_fields)
    then obtain x where x:
      "py_mod (heading (g_decay dt s1)
                + 1091 * tan (radians (roll (g_decay dt s1))) / max (airspeed (g_decay dt s1)) 1 * dt) 360
         = Inr x"
      "heading_dynamics dt (g_decay dt s1) = Inr ((g_decay dt s1)\<lparr>heading := x\<rparr>)"
      using heading_dynamics_active by blast
    have "s' = (g_decay dt s1)\<lparr>heading := x\<rparr>"
      using hd x(2) by simp
    then have "heading s' = x" by simp
    then have "py_mod (heading s + 1091 * tan (radians (roll s')) / max (airspeed s') 1 * dt) 360
                 = Inr (heading s')"
      using x(1) by (simp only: g_decay_fields r h)
    moreover have "\<bar>roll s'\<bar> > 1 \<and> airspeed s' > 30"
      using True by (simp only: r)
    ultimately show ?thesis
      by (simp only: simp_thms if_True)
  next
    case False
    then have "\<not> (\<bar>roll (g_decay dt s1)\<bar> > 1 \<and> airspeed (g_decay dt s1) > 30)"
      unfolding g_decay_fields .
    then have "s' = g_decay dt s1"
      using hd heading_dynamics_idle [of "g_decay dt s1" dt] by simp
    then have "heading s' = heading s"
      by (simp add: h g_decay_fields)
    moreover have "\<not> (\<bar>roll s'\<bar> > 1 \<and> airspeed s' > 30)"
      using False by (simp add: r)
    ultimately show ?thesis
      by (simp only: if_False)
  qed
qed



subsection \<open>The range of the heading\<close>

lemma update_heading_range:
  assumes "update dt s = Inr s'" and "0 \<le> heading s" and "heading s \<le> 360"
  shows "0 \<le> heading s' \<and> heading s' \<le> 360"
proof (cases "\<bar>roll s'\<bar> > 1 \<and> airspeed s' > 30")
  case True
  then have "py_mod (heading s + 1091 * tan (radians (roll s')) / max (airspeed s') 1 * dt) 360
               = Inr (heading s')"
    using update_heading [OF assms(1)] by simp
  then show ?thesis by (rule py_mod_360_range)
next
  case False
  then have "heading s' = heading s"
    using update_heading [OF assms(1)] by (simp only: if_False)
  then show ?thesis using assms by simp
qed

lemma tick_heading_range:
  assumes "tick evs dt s = Inr s'" and "0 \<le> heading s" and "heading s \<le> 360"
  shows "0 \<le> heading s' \<and> heading s' \<le> 360"
proof -
  obtain s0 where s0: "handle_events evs s = Inr s0" "update dt s0 = Inr s'"
    using tick_Inr [OF assms(1)] by blast
  have "heading s0 = heading s"
    using handle_events_heading [OF s0(1)] .
  then show ?thesis
    using update_heading_range [OF s0(2)] assms by simp
qed

lemma main_loop_heading_range:
  "main_loop frames s = Inr s' \<Longrightarrow> 0 \<le> heading s \<Longrightarrow> heading s \<le> 360 \<Longrightarrow>
     0 \<le> heading s' \<and> heading s' \<le> 360"
proof (induction frames arbitrary: s)
  case Nil
  then show ?case by simp
next
  case (Cons f frames)
  obtain dt evs where f: "f = (dt, evs)" by (cases f)
  show ?case
  proof (cases "running s")
    case True
    then obtain s1 where s1: "tick evs dt s = Inr s1" "main_loop frames s1 = Inr s'"
      using Cons.prems(1) by (cases "tick evs dt s") (simp_all add: f)
    have "0 \<le> heading s1 \<and> heading s1 \<le> 360"
      using tick_heading_range [OF s1(1)] Cons.prems by simp
    then show ?thesis
      using Cons.IH [OF s1(2)] by simp
  next
    case False
    then have "s' = s" using Cons.prems(1) by (simp add: f)
    then show ?thesis using Cons.prems by simp
  qed
qed

lemma sqrt_3_bounds:
  "173205080756887729 / 10 ^ 17 < sqrt 3" "sqrt 3 < 17320508075688772936 / 10 ^ 19"
proof -
  have "(173205080756887729 / 10 ^ 17 :: real)\<^sup>2 < 3"
    by (simp add: power2_eq_square)
  then show "173205080756887729 / 10 ^ 17 < sqrt 3"
    by (rule real_less_rsqrt)
  have "(3::real) < (17320508075688772936 / 10 ^ 19)\<^sup>2"
    by (simp add: power2_eq_square)
  then show "sqrt 3 < 17320508075688772936 / 10 ^ 19"
    by (intro real_less_lsqrt) simp_all
qed

lemma tan_radians_minus_30: "tan (radians (- 30)) = - (1 / sqrt 3)"
proof -
  have "radians (- 30) = - (pi / 6)"
    by (simp add: radians_def)
  then show ?thesis
    by (simp add: tan_30)
qed

text \<open>
  C4. \<open>0 \<le> heading < 360\<close> is to hold after the heading update of every tick. The wrap
  by \<^verbatim>\<open>% 360\<close> does not keep it. The heading update at roll \<open>-30\<close>, airspeed
  \<open>99.93562862261729\<close>, heading \<open>0.10084717970837094\<close> and frame time \<open>0.016\<close>, the floats
  that Python reads from these decimals: the sum \<open>heading + turn_rate * dt\<close> is negative
  and smaller than \<open>1 / 2 ^ 45\<close> in magnitude, \<^verbatim>\<open>fmod\<close> returns it unchanged, and adding
  360 rounds to exactly 360. The heading after the update is 360, as it is for the sum
  \<open>- 1 / 2 ^ 56\<close> that the float evaluation of the same update reaches. What every state
  of the main loop does satisfy is \<open>0 \<le> heading \<le> 360\<close> (\<open>main_loop_heading_range\<close>).
\<close>

theorem heading_wrap_reaches_360:
  "f64 (- 30) = - 30 \<and>
   f64 (9993562862261729 / 10 ^ 14) = 439521542798687 / 2 ^ 42 \<and>
   f64 (10084717970837094 / 10 ^ 17) = 7266805135295757 / 2 ^ 56 \<and>
   f64 (16 / 1000) = 1152921504606847 / 2 ^ 56 \<and>
   heading_dynamics (1152921504606847 / 2 ^ 56)
     (init\<lparr>mode := ROLLS, bank_angle := - 30, roll := - 30,
            airspeed := 439521542798687 / 2 ^ 42, heading := 7266805135295757 / 2 ^ 56\<rparr>)
     = Inr (init\<lparr>mode := ROLLS, bank_angle := - 30, roll := - 30,
                 airspeed := 439521542798687 / 2 ^ 42, heading := 360\<rparr>) \<and>
   py_mod (- (1 / 2 ^ 56)) 360 = Inr 360"
proof -
  let ?s = "init\<lparr>mode := ROLLS, bank_angle := - 30, roll := - 30,
            airspeed := 439521542798687 / 2 ^ 42, heading := 7266805135295757 / 2 ^ 56\<rparr>"
  let ?dt = "1152921504606847 / 2 ^ 56 :: real"
  have f1: "f64 (- 30) = - 30"
    using f64_eval [of 4 "- 30"] by (simp add: pow2_def round_half_even_def Let_def)
  have f2: "f64 (9993562862261729 / 10 ^ 14) = 439521542798687 / 2 ^ 42"
    using f64_eval [of 6 "9993562862261729 / 10 ^ 14"]
    by (simp add: pow2_def round_half_even_def Let_def)
  have f3: "f64 (10084717970837094 / 10 ^ 17) = 7266805135295757 / 2 ^ 56"
    using f64_eval [of "- 4" "10084717970837094 / 10 ^ 17"]
    by (simp add: pow2_def round_half_even_def Let_def)
  have f4: "f64 (16 / 1000) = 1152921504606847 / 2 ^ 56"
    using f64_eval [of "- 6" "16 / 1000"]
    by (simp add: pow2_def round_half_even_def Let_def)
  define c :: real where "c = 1091 * ?dt / (439521542798687 / 2 ^ 42)"
  define h :: real where "h = 7266805135295757 / 2 ^ 56"
  have cpos: "0 < c" by (simp add: c_def)
  have hpos: "0 < h" by (simp add: h_def)
  have s3: "0 < sqrt 3" by simp
  have "h * (17320508075688772936 / 10 ^ 19) < c"
    by (simp add: c_def h_def)
  moreover have "h * sqrt 3 < h * (17320508075688772936 / 10 ^ 19)"
    using sqrt_3_bounds(2) hpos by (rule mult_strict_left_mono)
  ultimately have "h * sqrt 3 < c" by linarith
  then have neg: "h - c / sqrt 3 < 0"
    using s3 by (simp add: field_simps)
  have "c \<le> (h + 1 / 2 ^ 45) * (173205080756887729 / 10 ^ 17)"
    by (simp add: c_def h_def)
  moreover have "(h + 1 / 2 ^ 45) * (173205080756887729 / 10 ^ 17) < (h + 1 / 2 ^ 45) * sqrt 3"
    using sqrt_3_bounds(1) hpos by (intro mult_strict_left_mono) simp_all
  ultimately have "c < (h + 1 / 2 ^ 45) * sqrt 3" by linarith
  then have "c / sqrt 3 < h + 1 / 2 ^ 45"
    using s3 by (simp add: field_simps)
  then have small: "- (1 / 2 ^ 45) \<le> h - c / sqrt 3"
    by linarith
  have cond: "\<bar>roll ?s\<bar> > 1 \<and> airspeed ?s > 30"
    by (simp add: init_def)
  have x: "heading ?s + 1091 * tan (radians (roll ?s)) / max (airspeed ?s) 1 * ?dt = h - c / sqrt 3"
    by (simp add: tan_radians_minus_30 c_def h_def init_def)
  obtain y where y:
    "py_mod (heading ?s + 1091 * tan (radians (roll ?s)) / max (airspeed ?s) 1 * ?dt) 360 = Inr y"
    "heading_dynamics ?dt ?s = Inr (?s\<lparr>heading := y\<rparr>)"
    using heading_dynamics_active [OF cond] by blast
  have "py_mod (h - c / sqrt 3) 360 = Inr 360"
    using small neg by (rule py_mod_360_tiny_negative)
  then have "y = 360"
    using y(1) unfolding x by simp
  then have hd: "heading_dynamics ?dt ?s
      = Inr (init\<lparr>mode := ROLLS, bank_angle := - 30, roll := - 30,
                 airspeed := 439521542798687 / 2 ^ 42, heading := 360\<rparr>)"
    using y(2) by (simp add: init_def)
  have pm: "py_mod (- (1 / 2 ^ 56)) 360 = Inr 360"
    by (rule py_mod_360_tiny_negative) simp_all
  show ?thesis
    using f1 f2 f3 f4 hd pm by blast
qed

subsection \<open>G-load\<close>

lemma flight_logic_g_factor:
  assumes "flight_logic dt s = Inr s1"
  shows "mode s = ROLLS \<Longrightarrow>
           mode s1 = ROLLS \<and>
           g_factor s1 = smooth (g_factor s) (1 / max 0.01 (cos (radians (roll s1)))) 3 dt"
    and "mode s \<noteq> ROLLS \<Longrightarrow> mode s1 \<noteq> ROLLS \<and> g_factor s1 = g_factor s"
proof -
  show "mode s1 = ROLLS \<and>
        g_factor s1 = smooth (g_factor s) (1 / max 0.01 (cos (radians (roll s1)))) 3 dt"
    if "mode s = ROLLS"
  proof -
    have "radians \<bar>x\<bar> = \<bar>radians x\<bar>" for x
      by (simp add: radians_def abs_mult)
    then have "cos (radians \<bar>x\<bar>) = cos (radians x)" for x
      by simp
    then show ?thesis
      using assms that by (auto simp: flight_logic_def rolls_Inr Let_def)
  qed
  show "mode s1 \<noteq> ROLLS \<and> g_factor s1 = g_factor s" if "mode s \<noteq> ROLLS"
  proof (cases "mode s")
    case CLIMB
    then show ?thesis using assms by (auto simp: flight_logic_def climb_Inr split: if_splits)
  next
    case DESCENT
    then show ?thesis using assms by (auto simp: flight_logic_def descent_Inr split: if_splits)
  next
    case ALT_CAPTURE
    then show ?thesis
      using assms by (auto simp: flight_logic_def alt_capture_Inr Let_def split: if_splits)
  next
    case CRUISE
    then show ?thesis using assms by (auto simp: flight_logic_def cruise_def)
  next
    case ROLLS
    then show ?thesis using that by simp
  qed
qed

lemma update_g_factor:
  assumes "update dt s = Inr s'"
  shows "g_factor s' =
           (if mode s = ROLLS
            then smooth (g_factor s) (1 / max 0.01 (cos (radians (roll s')))) 3 dt
            else smooth (g_factor s) 1 2.5 dt)"
proof -
  obtain s1 where s1: "flight_logic dt s = Inr s1"
    using flight_logic_total by blast
  have r: "roll s' = roll s1"
    using update_after_flight_logic [OF s1 assms] by simp
  have hd: "heading_dynamics dt (g_decay dt s1) = Inr s'"
    using assms s1 by (simp add: update_def)
  have g: "g_factor s' = g_factor (g_decay dt s1)"
    using hd by (auto simp: heading_dynamics_Inr split: if_splits)
  show ?thesis
  proof (cases "mode s = ROLLS")
    case True
    then show ?thesis
      using flight_logic_g_factor(1) [OF s1] by (simp add: g r g_decay_def)
  next
    case False
    then show ?thesis
      using flight_logic_g_factor(2) [OF s1] by (simp add: g g_decay_def)
  qed
qed

lemma cos_radians_60: "cos (radians 60) = 1 / 2"
proof -
  have e: "(60 * pi / 180 :: real) = pi / 3" by simp
  show ?thesis unfolding radians_def e by (rule cos_60)
qed

text \<open>
  C6. On a tick in mode \<open>ROLLS\<close> the g-load is smoothed at rate 3 toward
  \<open>1 / max 0.01 (cos (radians roll))\<close>, \<open>roll\<close> being the roll the tick has just computed;
  on a tick in any other mode it is smoothed at rate 2.5 toward 1. The target is 2 at a
  roll of 60 degrees and 1 at a roll of 0 degrees, and the target is the only fixed point
  of the smoothing step when \<open>r * dt\<close> is not zero.
\<close>

theorem g_factor_update:
  "(\<exists>s'. update dt s = Inr s' \<and>
         g_factor s' =
           (if mode s = ROLLS
            then smooth (g_factor s) (1 / max 0.01 (cos (radians (roll s')))) 3 dt
            else smooth (g_factor s) 1 2.5 dt)) \<and>
   compute_g 60 = Inr 2 \<and> compute_g 0 = Inr 1 \<and>
   (r * dt \<noteq> 0 \<longrightarrow> (smooth g t r dt = g \<longleftrightarrow> g = t))"
proof -
  obtain s' where s': "update dt s = Inr s'"
    using update_total by blast
  have a: "\<exists>s'. update dt s = Inr s' \<and>
         g_factor s' =
           (if mode s = ROLLS
            then smooth (g_factor s) (1 / max 0.01 (cos (radians (roll s')))) 3 dt
            else smooth (g_factor s) 1 2.5 dt)"
    using s' update_g_factor [OF s'] by blast
  have b: "compute_g 60 = Inr 2"
    by (simp add: compute_g_Inr cos_radians_60)
  have c: "compute_g 0 = Inr 1"
    by (simp add: compute_g_Inr radians_def)
  have d: "smooth g t r dt = g \<longleftrightarrow> g = t" if "r * dt \<noteq> 0"
  proof -
    have "smooth g t r dt = g \<longleftrightarrow> (t - g) * (r * dt) = 0"
      by (simp add: smooth_def algebra_simps)
    then show ?thesis using that by auto
  qed
  show ?thesis using a b c d by blast
qed

theorem g_factor_update_witness:
  "(3::real) * (1/60) \<noteq> 0 \<and> (smooth 2 2 3 (1/60) = 2 \<longleftrightarrow> (2::real) = 2) \<and>
   (\<exists>s'. update (1/60) (init\<lparr>mode := ROLLS, roll := 60, bank_angle := 60\<rparr>) = Inr s' \<and>
         roll s' = 60 \<and> g_factor s' = 21 / 20) \<and>
   (\<exists>s'. update (1/60) (init\<lparr>g_factor := 2\<rparr>) = Inr s' \<and> g_factor s' = 47 / 24)"
proof -
  let ?s = "init\<lparr>mode := ROLLS, roll := 60, bank_angle := 60\<rparr>"
  obtain s' where s': "update (1/60) ?s = Inr s'"
    "g_factor s' = (if mode ?s = ROLLS
            then smooth (g_factor ?s) (1 / max 0.01 (cos (radians (roll s')))) 3 (1/60)
            else smooth (g_factor ?s) 1 2.5 (1/60))"
    using g_factor_update [of "1/60" ?s] by blast
  obtain s1 where s1: "flight_logic (1/60) ?s = Inr s1"
    using flight_logic_total by blast
  have "roll s1 = 60"
    using s1 by (auto simp: flight_logic_def rolls_Inr Let_def smooth_def init_def)
  then have r: "roll s' = 60"
    using update_after_flight_logic(4) [OF s1 s'(1)] by simp
  have g: "g_factor s' = 21 / 20"
    using s'(2) by (simp add: r cos_radians_60 smooth_def init_def)
  obtain u' where u': "update (1/60) (init\<lparr>g_factor := 2\<rparr>) = Inr u'"
    "g_factor u' = (if mode (init\<lparr>g_factor := 2\<rparr>) = ROLLS
            then smooth (g_factor (init\<lparr>g_factor := 2\<rparr>)) (1 / max 0.01 (cos (radians (roll u')))) 3 (1/60)
            else smooth (g_factor (init\<lparr>g_factor := 2\<rparr>)) 1 2.5 (1/60))"
    using g_factor_update [of "1/60" "init\<lparr>g_factor := 2\<rparr>"] by blast
  have h: "g_factor u' = 47 / 24"
    using u'(2) by (simp add: smooth_def init_def)
  have f: "(3::real) * (1/60) \<noteq> 0 \<and> (smooth 2 2 3 (1/60) = 2 \<longleftrightarrow> (2::real) = 2)"
    using g_factor_update [of "1/60" init 3 2 2] by simp
  show ?thesis
    using f s'(1) r g u'(1) h by blast
qed

subsection \<open>No division by zero\<close>

lemma index_of_error: "index_of xs v = Inl e \<Longrightarrow> e = ValueError"
  by (induction xs) (auto split: if_splits sum.splits)

lemma turn_up_error: "turn_up s = Inl e \<Longrightarrow> e = ValueError"
  by (auto simp: turn_up_def split: sum.splits dest: index_of_error)

lemma turn_dn_error: "turn_dn s = Inl e \<Longrightarrow> e = ValueError"
  by (auto simp: turn_dn_def split: sum.splits dest: index_of_error)

lemma turn_knob_error: "turn_knob pos s = Inl e \<Longrightarrow> e = ValueError"
  by (auto simp: turn_knob_def split: sum.splits if_splits dest: turn_up_error turn_dn_error)

lemma handle_event_error: "handle_event ev s = Inl e \<Longrightarrow> e = ValueError"
  by (cases ev) (auto dest: turn_knob_error)

lemma handle_events_error: "handle_events evs s = Inl e \<Longrightarrow> e = ValueError"
proof (induction evs arbitrary: s)
  case Nil
  then show ?case by simp
next
  case (Cons ev evs)
  show ?case
  proof (cases "handle_event ev s")
    case (Inl a)
    then show ?thesis
      using Cons.prems handle_event_error by auto
  next
    case (Inr s1)
    then show ?thesis
      using Cons by auto
  qed
qed

lemma index_of_Inr:
  "v \<in> set xs \<Longrightarrow> \<exists>i. index_of xs v = Inr i \<and> i < length xs"
  by (induction xs) auto

lemma press_buttons_bank: "bank_angle (press_buttons bs pos s) = bank_angle s"
proof (induction bs arbitrary: s)
  case Nil
  then show ?case by simp
next
  case (Cons b bs)
  obtain m r where b: "b = (m, r)" by (cases b)
  show ?case
    using Cons.IH [of "if collidepoint r pos then s\<lparr>prev_mode := mode s, mode := m\<rparr> else s"]
    by (simp add: b)
qed

lemma alt_knob_bank: "bank_angle (alt_knob pos s) = bank_angle s"
  by (simp add: alt_knob_def Let_def)

lemma ias_knob_bank: "bank_angle (ias_knob pos s) = bank_angle s"
  by (simp add: ias_knob_def Let_def)

lemma turn_up_ok:
  assumes "bank_angle s \<in> set BANK_OPTIONS"
  shows "\<exists>s'. turn_up s = Inr s' \<and> bank_angle s' \<in> set BANK_OPTIONS"
proof -
  obtain i where i: "index_of BANK_OPTIONS (bank_angle s) = Inr i" "i < length BANK_OPTIONS"
    using index_of_Inr [OF assms] by blast
  have "BANK_OPTIONS ! (i + 1) \<in> set BANK_OPTIONS" if "i < length BANK_OPTIONS - 1"
    using that by (intro nth_mem) simp
  then show ?thesis
    using i assms by (simp add: turn_up_def)
qed

lemma turn_dn_ok:
  assumes "bank_angle s \<in> set BANK_OPTIONS"
  shows "\<exists>s'. turn_dn s = Inr s' \<and> bank_angle s' \<in> set BANK_OPTIONS"
proof -
  obtain i where i: "index_of BANK_OPTIONS (bank_angle s) = Inr i" "i < length BANK_OPTIONS"
    using index_of_Inr [OF assms] by blast
  have "BANK_OPTIONS ! (i - 1) \<in> set BANK_OPTIONS"
    using i(2) by (intro nth_mem) simp
  then show ?thesis
    using i assms by (simp add: turn_dn_def)
qed

lemma turn_knob_ok:
  assumes "bank_angle s \<in> set BANK_OPTIONS"
  shows "\<exists>s'. turn_knob pos s = Inr s' \<and> bank_angle s' \<in> set BANK_OPTIONS"
proof -
  obtain s1 where s1: "(if collidepoint TURN_UP pos then turn_up s else Inr s) = Inr s1"
      "bank_angle s1 \<in> set BANK_OPTIONS"
    using turn_up_ok [OF assms] assms by (cases "collidepoint TURN_UP pos") auto
  obtain s2 where s2: "(if collidepoint TURN_DN pos then turn_dn s1 else Inr s1) = Inr s2"
      "bank_angle s2 \<in> set BANK_OPTIONS"
    using turn_dn_ok [OF s1(2)] s1(2) by (cases "collidepoint TURN_DN pos") auto
  show ?thesis
    using s1(1) s2 by (simp add: turn_knob_def)
qed

lemma handle_event_ok:
  assumes "bank_angle s \<in> set BANK_OPTIONS"
  shows "\<exists>s'. handle_event e s = Inr s' \<and> bank_angle s' \<in> set BANK_OPTIONS"
proof (cases e)
  case QUIT
  then show ?thesis using assms by simp
next
  case (MOUSEBUTTONDOWN pos)
  have "bank_angle (ias_knob pos (alt_knob pos (press_buttons buttons pos s))) \<in> set BANK_OPTIONS"
    using assms by (simp add: ias_knob_bank alt_knob_bank press_buttons_bank)
  then show ?thesis
    using turn_knob_ok MOUSEBUTTONDOWN by simp
next
  case OTHER
  then show ?thesis using assms by simp
qed

lemma handle_events_ok:
  "bank_angle s \<in> set BANK_OPTIONS \<Longrightarrow>
     \<exists>s'. handle_events es s = Inr s' \<and> bank_angle s' \<in> set BANK_OPTIONS"
proof (induction es arbitrary: s)
  case Nil
  then show ?case by simp
next
  case (Cons e es)
  obtain s1 where s1: "handle_event e s = Inr s1" "bank_angle s1 \<in> set BANK_OPTIONS"
    using handle_event_ok [OF Cons.prems] by blast
  show ?case
    using Cons.IH [OF s1(2)] s1(1) by simp
qed

lemma flight_logic_bank:
  assumes "flight_logic dt s = Inr s1"
  shows "bank_angle s1 = bank_angle s"
proof (cases "mode s")
  case CLIMB
  then show ?thesis using assms by (auto simp: flight_logic_def climb_Inr)
next
  case DESCENT
  then show ?thesis using assms by (auto simp: flight_logic_def descent_Inr)
next
  case ALT_CAPTURE
  then show ?thesis
    using assms by (auto simp: flight_logic_def alt_capture_Inr Let_def split: if_splits)
next
  case CRUISE
  then show ?thesis using assms by (auto simp: flight_logic_def cruise_def)
next
  case ROLLS
  then show ?thesis using assms by (auto simp: flight_logic_def rolls_Inr Let_def)
qed

lemma tick_ok:
  assumes "bank_angle s \<in> set BANK_OPTIONS"
  shows "\<exists>s'. tick evs dt s = Inr s' \<and> bank_angle s' \<in> set BANK_OPTIONS"
proof -
  obtain s0 where s0: "handle_events evs s = Inr s0" "bank_angle s0 \<in> set BANK_OPTIONS"
    using handle_events_ok [OF assms] by blast
  obtain s1 where s1: "flight_logic dt s0 = Inr s1"
    using flight_logic_total by blast
  obtain s' where s': "update dt s0 = Inr s'"
    using update_total by blast
  have "bank_angle s' = bank_angle s0"
    using update_after_flight_logic(11) [OF s1 s'] flight_logic_bank [OF s1] by simp
  then show ?thesis
    using s0 s' by (simp add: tick_def)
qed

lemma main_loop_ok:
  "bank_angle s \<in> set BANK_OPTIONS \<Longrightarrow> \<exists>s'. main_loop frames s = Inr s'"
proof (induction frames arbitrary: s)
  case Nil
  then show ?case by simp
next
  case (Cons f frames)
  obtain dt evs where f: "f = (dt, evs)" by (cases f)
  obtain s1 where s1: "tick evs dt s = Inr s1" "bank_angle s1 \<in> set BANK_OPTIONS"
    using tick_ok [OF Cons.prems] by blast
  show ?case
    using Cons.IH [OF s1(2)] s1(1) by (simp add: f)
qed

lemma main_loop_init_ok: "\<exists>t. main_loop frames init = Inr t"
  by (rule main_loop_ok) (simp add: init_def BANK_OPTIONS_def)

text \<open>
  C8. Every division of the per-tick update has a positive denominator, for all states:
  the turn-rate denominator \<open>max airspeed 1\<close> is at least 1, the g-load denominator
  \<open>max 0.01 (cos (radians bank))\<close> is at least 0.01, and the other denominators are the
  literals 60, 25, 150 and 360. So the update returns a state for every state and frame
  time, no tick ends in the division-by-zero branch, whatever the events are, and the
  main loop started in the initial state returns a state for every sequence of frames.
\<close>

theorem update_total_no_zero_division:
  "(\<exists>s'. update dt s = Inr s') \<and>
   tick evs dt s \<noteq> Inl ZeroDivisionError \<and>
   1 \<le> max (airspeed s) 1 \<and>
   py_div a (max (airspeed s) 1) = Inr (a / max (airspeed s) 1) \<and>
   0.01 \<le> max 0.01 (cos (radians bank)) \<and>
   compute_g bank = Inr (1 / max 0.01 (cos (radians bank))) \<and>
   (\<exists>t. main_loop frames init = Inr t)"
proof -
  have t: "tick evs dt s \<noteq> Inl ZeroDivisionError"
  proof (cases "handle_events evs s")
    case (Inl e)
    then have "e = ValueError" by (rule handle_events_error)
    then show ?thesis using Inl by (simp add: tick_def)
  next
    case (Inr s0)
    obtain s' where "update dt s0 = Inr s'"
      using update_total by blast
    then show ?thesis using Inr by (simp add: tick_def)
  qed
  have "max (airspeed s) 1 \<noteq> 0"
    using turn_denominator_pos [of "airspeed s"] by linarith
  then have d: "py_div a (max (airspeed s) 1) = Inr (a / max (airspeed s) 1)"
    by (rule py_div_nz)
  show ?thesis
    using update_total [of dt s] t d turn_denominator_pos [of "airspeed s"]
      g_denominator_pos [of bank] compute_g_Inr [of bank] main_loop_init_ok [of frames]
    by blast
qed

subsection \<open>Layout of the display\<close>

lemma pfd_init_Inr:
  assumes "0 \<le> w" and "0 \<le> h"
  shows "\<exists>p. pfd_init (w, h) mf mk lt bgr = Inr p \<and>
           unit p = of_int (min w h) / 16 \<and>
           ind_position (airspeed_indicator p) = (centerx (w, h) - 5 * unit p, centery (w, h)) \<and>
           ind_position (altitude_indicator p) = (centerx (w, h) + 5 * unit p, centery (w, h)) \<and>
           ind_position (heading_indicator p) = (centerx (w, h), centery (w, h) + 5 * unit p)"
  using assms by (simp add: pfd_init_def Let_def)

text \<open>
  C9. Constructing the display with a resolution \<open>(w, h)\<close> gives \<open>unit = min w h / 16\<close>;
  the airspeed indicator is placed at \<open>(centerx - 5 * unit, centery)\<close>, the altitude
  indicator at \<open>(centerx + 5 * unit, centery)\<close> and the heading indicator at
  \<open>(centerx, centery + 5 * unit)\<close>. No method that runs afterwards (\<open>tick\<close>, \<open>update\<close>,
  \<open>draw\<close>) changes \<open>unit\<close>. The offsets from the screen centre are the fixed multiples
  \<open>-5\<close>, \<open>5\<close> and \<open>5\<close> of \<open>unit\<close>, so between two resolutions they are in the ratio of
  the two units. For \<open>(800, 800)\<close> the unit is 50.
\<close>

theorem pfd_geometry_unit:
  assumes "0 \<le> w" and "0 \<le> h"
  shows "\<exists>p. pfd_init (w, h) mf mk lt bgr = Inr p \<and>
           unit p = of_int (min w h) / 16 \<and>
           ind_position (airspeed_indicator p) = (centerx (w, h) - 5 * unit p, centery (w, h)) \<and>
           ind_position (altitude_indicator p) = (centerx (w, h) + 5 * unit p, centery (w, h)) \<and>
           ind_position (heading_indicator p) = (centerx (w, h), centery (w, h) + 5 * unit p) \<and>
           unit (pfd_tick measured p) = unit p \<and>
           unit (pfd_update st rt stime p) = unit p \<and>
           unit (pfd_draw p) = unit p \<and>
           unit (render measured t s p) = unit p \<and>
           (\<forall>w' h' p'. 0 \<le> w' \<and> 0 \<le> h' \<and> pfd_init (w', h') mf mk lt bgr = Inr p' \<longrightarrow>
              (fst (ind_position (airspeed_indicator p)) - centerx (w, h)) * unit p'
                = (fst (ind_position (airspeed_indicator p')) - centerx (w', h')) * unit p \<and>
              (fst (ind_position (altitude_indicator p)) - centerx (w, h)) * unit p'
                = (fst (ind_position (altitude_indicator p')) - centerx (w', h')) * unit p \<and>
              (snd (ind_position (heading_indicator p)) - centery (w, h)) * unit p'
                = (snd (ind_position (heading_indicator p')) - centery (w', h')) * unit p)"
proof -
  obtain p where p: "pfd_init (w, h) mf mk lt bgr = Inr p"
      "unit p = of_int (min w h) / 16"
      "ind_position (airspeed_indicator p) = (centerx (w, h) - 5 * unit p, centery (w, h))"
      "ind_position (altitude_indicator p) = (centerx (w, h) + 5 * unit p, centery (w, h))"
      "ind_position (heading_indicator p) = (centerx (w, h), centery (w, h) + 5 * unit p)"
    using pfd_init_Inr [OF assms] by blast
  have m: "unit (pfd_tick measured p) = unit p" "unit (pfd_update st rt stime p) = unit p"
      "unit (pfd_draw p) = unit p" "unit (render measured t s p) = unit p"
    by (simp_all add: pfd_tick_def pfd_update_def pfd_draw_def render_def)
  have sc: "(fst (ind_position (airspeed_indicator p)) - centerx (w, h)) * unit p'
                = (fst (ind_position (airspeed_indicator p')) - centerx (w', h')) * unit p \<and>
              (fst (ind_position (altitude_indicator p)) - centerx (w, h)) * unit p'
                = (fst (ind_position (altitude_indicator p')) - centerx (w', h')) * unit p \<and>
              (snd (ind_position (heading_indicator p)) - centery (w, h)) * unit p'
                = (snd (ind_position (heading_indicator p')) - centery (w', h')) * unit p"
    if q: "0 \<le> w' \<and> 0 \<le> h' \<and> pfd_init (w', h') mf mk lt bgr = Inr p'" for w' h' p'
  proof -
    obtain p2 where p2: "pfd_init (w', h') mf mk lt bgr = Inr p2"
      "ind_position (airspeed_indicator p2) = (centerx (w', h') - 5 * unit p2, centery (w', h'))"
      "ind_position (altitude_indicator p2) = (centerx (w', h') + 5 * unit p2, centery (w', h'))"
      "ind_position (heading_indicator p2) = (centerx (w', h'), centery (w', h') + 5 * unit p2)"
      using pfd_init_Inr [of w' h' mf mk lt bgr] q by blast
    have "p2 = p'" using p2(1) q by simp
    then show ?thesis using p2 p by simp
  qed
  show ?thesis
    using p m sc by blast
qed

theorem pfd_geometry_unit_witness:
  "(0::int) \<le> 800 \<and>
   (\<exists>p. pfd_init (800, 800) (Some 60) True False (\<lambda>i. 700) = Inr p \<and> unit p = 50 \<and>
        ind_position (airspeed_indicator p) = (150, 400) \<and>
        ind_position (altitude_indicator p) = (650, 400) \<and>
        ind_position (heading_indicator p) = (400, 650) \<and>
        unit (render 60 0 init p) = 50)"
proof -
  have z: "(0::int) \<le> 800" by simp
  obtain p where p: "pfd_init (800, 800) (Some 60) True False (\<lambda>i. 700) = Inr p"
      "unit p = of_int (min 800 800) / 16"
      "ind_position (airspeed_indicator p) = (centerx (800, 800) - 5 * unit p, centery (800, 800))"
      "ind_position (altitude_indicator p) = (centerx (800, 800) + 5 * unit p, centery (800, 800))"
      "ind_position (heading_indicator p) = (centerx (800, 800), centery (800, 800) + 5 * unit p)"
      "unit (render 60 0 init p) = unit p"
    using pfd_geometry_unit [OF z z, of "Some 60" True False "\<lambda>i. 700" 60 "snapshot init" None None 0 init]
    by blast
  have u: "unit p = 50"
    using p(2) by simp
  show ?thesis
    using p(1,3,4,5,6) u by (auto simp: centerx_def centery_def)
qed

subsection \<open>The climb to a commanded altitude\<close>

lemma tick_no_events: "tick [] dt s = update dt s"
  by (simp add: tick_def)

lemma tick_climb:
  assumes "mode s = CLIMB" and "tick [] dt s = Inr s'"
  shows "vspeed s' = smooth (vspeed s) 700 1.5 dt"
    and "altitude s' = altitude s + vspeed s' / 60 * dt"
    and "ALTITUDE_CMD s' = ALTITUDE_CMD s"
    and "mode s' = (if altitude s' \<ge> ALTITUDE_CMD s - 80 then ALT_CAPTURE else CLIMB)"
proof -
  let ?s1 = "s\<lparr>roll := smooth (roll s) 0 2 dt,
            pitch := smooth (pitch s) 7 1.5 dt,
            vspeed := smooth (vspeed s) 700 1.5 dt,
            altitude := altitude s + smooth (vspeed s) 700 1.5 dt / 60 * dt,
            airspeed := update_airspeed (airspeed s) (smooth (pitch s) 7 1.5 dt) (IAS_CMD s - 10) dt,
            mode := (if altitude s + smooth (vspeed s) 700 1.5 dt / 60 * dt \<ge> ALTITUDE_CMD s - 80
                     then ALT_CAPTURE else mode s)\<rparr>"
  have fl: "flight_logic dt s = Inr ?s1"
    using assms(1) by (simp add: flight_logic_def climb_Inr)
  have up: "update dt s = Inr s'"
    using assms(2) by (simp add: tick_no_events)
  note f = update_after_flight_logic [OF fl up]
  show "vspeed s' = smooth (vspeed s) 700 1.5 dt"
    using f(3) by simp
  then show "altitude s' = altitude s + vspeed s' / 60 * dt"
    using f(2) by simp
  then show "mode s' = (if altitude s' \<ge> ALTITUDE_CMD s - 80 then ALT_CAPTURE else CLIMB)"
    using f(1,2) assms(1) by simp
  show "ALTITUDE_CMD s' = ALTITUDE_CMD s"
    using f(7) by simp
qed

lemma tick_capture_hold:
  assumes "mode s = ALT_CAPTURE" and "tick [] dt s = Inr s'"
    and "\<not> \<bar>ALTITUDE_CMD s - altitude s\<bar> < 5"
  shows "mode s' = ALT_CAPTURE"
    and "vspeed s' = smooth (vspeed s) (clip ((ALTITUDE_CMD s - altitude s) * 5) (- 500) 500) 2 dt"
    and "altitude s' = altitude s + vspeed s' / 25 * dt"
    and "ALTITUDE_CMD s' = ALTITUDE_CMD s"
proof -
  obtain s1 where fl: "flight_logic dt s = Inr s1"
    using flight_logic_total by blast
  have up: "update dt s = Inr s'"
    using assms(2) by (simp add: tick_no_events)
  note f = update_after_flight_logic [OF fl up]
  have s1: "alt_capture dt s = Inr s1"
    using fl assms(1) by (simp add: flight_logic_def)
  show "mode s' = ALT_CAPTURE"
    using s1 assms(1,3) f(1) by (auto simp: alt_capture_Inr Let_def)
  show v: "vspeed s' = smooth (vspeed s) (clip ((ALTITUDE_CMD s - altitude s) * 5) (- 500) 500) 2 dt"
    using s1 assms(3) f(3) by (auto simp: alt_capture_Inr Let_def)
  show "altitude s' = altitude s + vspeed s' / 25 * dt"
    using s1 assms(3) f(2) unfolding v by (auto simp: alt_capture_Inr Let_def)
  show "ALTITUDE_CMD s' = ALTITUDE_CMD s"
    using s1 assms(3) f(7) by (auto simp: alt_capture_Inr Let_def)
qed

lemma tick_capture_snap:
  assumes "mode s = ALT_CAPTURE" and "tick [] dt s = Inr s'"
    and "\<bar>ALTITUDE_CMD s - altitude s\<bar> < 5"
  shows "mode s' = CRUISE" and "altitude s' = ALTITUDE_CMD s" and "vspeed s' = 0"
    and "pitch s' = 0" and "airspeed s' = IAS_CMD s" and "ALTITUDE_CMD s' = ALTITUDE_CMD s"
    and "IAS_CMD s' = IAS_CMD s"
proof -
  obtain s1 where fl: "flight_logic dt s = Inr s1"
    using flight_logic_total by blast
  have up: "update dt s = Inr s'"
    using assms(2) by (simp add: tick_no_events)
  note f = update_after_flight_logic [OF fl up]
  have s1: "alt_capture dt s = Inr s1"
    using fl assms(1) by (simp add: flight_logic_def)
  show "mode s' = CRUISE"
    using s1 assms(3) f(1) by (auto simp: alt_capture_Inr Let_def)
  show "altitude s' = ALTITUDE_CMD s"
    using s1 assms(3) f(2) by (auto simp: alt_capture_Inr Let_def)
  show "vspeed s' = 0"
    using s1 assms(3) f(3) by (auto simp: alt_capture_Inr Let_def)
  show "pitch s' = 0"
    using s1 assms(3) f(5) by (auto simp: alt_capture_Inr Let_def)
  show "airspeed s' = IAS_CMD s"
    using s1 assms(3) f(6) by (auto simp: alt_capture_Inr Let_def)
  show "ALTITUDE_CMD s' = ALTITUDE_CMD s"
    using s1 assms(3) f(7) by (auto simp: alt_capture_Inr Let_def)
  show "IAS_CMD s' = IAS_CMD s"
    using s1 assms(3) f(8) by (auto simp: alt_capture_Inr Let_def)
qed

lemma run_total: "\<exists>s'. run dt n s = Inr s'"
proof (induction n)
  case 0
  then show ?case by simp
next
  case (Suc n)
  then obtain s1 where "run dt n s = Inr s1" by blast
  then show ?case
    using update_total [of dt s1] by (simp add: tick_no_events)
qed


lemma climb_step_bounds:
  assumes "mode s = CLIMB" and "tick [] (1/60) s = Inr s'"
    and "0 \<le> vspeed s" and "vspeed s \<le> 700"
  shows "35/2 \<le> vspeed s'" and "vspeed s' \<le> 700"
    and "altitude s + 7/1440 \<le> altitude s'" and "altitude s' \<le> altitude s + 7/36"
proof -
  have v: "vspeed s' = vspeed s * (39/40) + 35/2"
    using tick_climb(1) [OF assms(1,2)] by (simp add: smooth_def algebra_simps)
  have a: "altitude s' = altitude s + vspeed s' / 3600"
    using tick_climb(2) [OF assms(1,2)] by simp
  show lo: "35/2 \<le> vspeed s'" and hi: "vspeed s' \<le> 700"
    using assms(3,4) unfolding v by simp_all
  show "altitude s + 7/1440 \<le> altitude s'" and "altitude s' \<le> altitude s + 7/36"
    using lo hi unfolding a by simp_all
qed

lemma capture_step_bounds:
  assumes "mode s = ALT_CAPTURE" and "tick [] (1/60) s = Inr s'"
    and "ALTITUDE_CMD s = 2000" and "5 \<le> 2000 - altitude s"
    and "35/2 \<le> vspeed s" and "vspeed s \<le> 700"
  shows "mode s' = ALT_CAPTURE" and "ALTITUDE_CMD s' = 2000"
    and "35/2 \<le> vspeed s'" and "vspeed s' \<le> 700"
    and "altitude s + 7/600 \<le> altitude s'" and "altitude s' \<le> altitude s + 7/15"
proof -
  have n: "\<not> \<bar>ALTITUDE_CMD s - altitude s\<bar> < 5"
    using assms(3,4) by simp
  note t = tick_capture_hold [OF assms(1,2) n]
  define c where "c = clip ((ALTITUDE_CMD s - altitude s) * 5) (- 500) 500"
  have c: "25 \<le> c" "c \<le> 500"
    using assms(3,4) by (simp_all add: c_def clip_def)
  have v: "vspeed s' = vspeed s * (29/30) + c / 30"
    using t(2) by (simp add: smooth_def c_def algebra_simps)
  have a: "altitude s' = altitude s + vspeed s' / 1500"
    using t(3) by simp
  show "mode s' = ALT_CAPTURE" by (rule t(1))
  show "ALTITUDE_CMD s' = 2000" using t(4) assms(3) by simp
  show lo: "35/2 \<le> vspeed s'" and hi: "vspeed s' \<le> 700"
    using assms(5,6) c unfolding v by simp_all
  show "altitude s + 7/600 \<le> altitude s'" and "altitude s' \<le> altitude s + 7/15"
    using lo hi unfolding a by simp_all
qed

lemma climb_phase:
  fixes st :: "nat \<Rightarrow> sim"
  assumes step: "\<And>k. tick [] (1/60) (st k) = Inr (st (Suc k))"
    and start: "mode (st 0) = CLIMB" "altitude (st 0) = 1000" "ALTITUDE_CMD (st 0) = 2000"
      "0 \<le> vspeed (st 0)" "vspeed (st 0) \<le> 700"
  shows "\<exists>n1>0. (\<forall>k<n1. mode (st k) = CLIMB \<and> altitude (st k) < 1920) \<and>
           mode (st n1) = ALT_CAPTURE \<and> 1920 \<le> altitude (st n1) \<and>
           altitude (st n1) \<le> 1920 + 7/36 \<and>
           35/2 \<le> vspeed (st n1) \<and> vspeed (st n1) \<le> 700 \<and> ALTITUDE_CMD (st n1) = 2000"
proof -
  have inv: "ALTITUDE_CMD (st k) = 2000 \<and> 0 \<le> vspeed (st k) \<and> vspeed (st k) \<le> 700 \<and>
             1000 + real k * (7/1440) \<le> altitude (st k) \<and> altitude (st k) < 1920"
    if "\<forall>j\<le>k. mode (st j) = CLIMB" for k
    using that
  proof (induction k)
    case 0
    then show ?case using start by simp
  next
    case (Suc k)
    then have ih: "ALTITUDE_CMD (st k) = 2000" "0 \<le> vspeed (st k)" "vspeed (st k) \<le> 700"
        "1000 + real k * (7/1440) \<le> altitude (st k)"
      by simp_all
    have m: "mode (st k) = CLIMB" "mode (st (Suc k)) = CLIMB"
      using Suc.prems by simp_all
    note b = climb_step_bounds [OF m(1) step ih(2,3)]
    have cmd: "ALTITUDE_CMD (st (Suc k)) = 2000"
      using tick_climb(3) [OF m(1) step] ih(1) by simp
    have "mode (st (Suc k)) =
            (if altitude (st (Suc k)) \<ge> ALTITUDE_CMD (st k) - 80 then ALT_CAPTURE else CLIMB)"
      by (rule tick_climb(4) [OF m(1) step])
    then have lt: "altitude (st (Suc k)) < 1920"
      using m(2) ih(1) by (simp split: if_splits)
    have "real (Suc k) * (7/1440) = real k * (7/1440) + 7/1440"
      by (simp add: algebra_simps)
    then have "1000 + real (Suc k) * (7/1440) \<le> altitude (st (Suc k))"
      using b(3) ih(4) by linarith
    then show ?case
      using cmd b(1,2) lt by simp
  qed
  have ex: "\<exists>k. mode (st k) \<noteq> CLIMB"
  proof (rule ccontr)
    assume "\<not> (\<exists>k. mode (st k) \<noteq> CLIMB)"
    then have "\<forall>j\<le>189258. mode (st j) = CLIMB" by blast
    then have "1000 + real (189258::nat) * (7/1440) \<le> altitude (st 189258) \<and>
        altitude (st 189258) < 1920"
      by (rule inv [THEN conjunct2, THEN conjunct2, THEN conjunct2])
    then show False by linarith
  qed
  define n1 where "n1 = (LEAST k. mode (st k) \<noteq> CLIMB)"
  have n1: "mode (st n1) \<noteq> CLIMB"
    unfolding n1_def using ex by (rule LeastI_ex)
  have before: "mode (st k) = CLIMB" if "k < n1" for k
    using not_less_Least [of k "\<lambda>k. mode (st k) \<noteq> CLIMB"] that unfolding n1_def by blast
  have pos: "0 < n1"
    using n1 start(1) by (cases n1) simp_all
  then obtain k where k: "n1 = Suc k"
    by (cases n1) simp_all
  have "\<forall>j\<le>k. mode (st j) = CLIMB"
    using before k by simp
  then have ik: "ALTITUDE_CMD (st k) = 2000" "0 \<le> vspeed (st k)" "vspeed (st k) \<le> 700"
      "altitude (st k) < 1920"
    using inv [of k] by simp_all
  have mk: "mode (st k) = CLIMB"
    using before k by simp
  note b = climb_step_bounds [OF mk step ik(2,3)]
  have "mode (st n1) =
          (if altitude (st n1) \<ge> ALTITUDE_CMD (st k) - 80 then ALT_CAPTURE else CLIMB)"
    unfolding k by (rule tick_climb(4) [OF mk step])
  then have cap: "mode (st n1) = ALT_CAPTURE" "1920 \<le> altitude (st n1)"
    using n1 ik(1) by (simp_all split: if_splits)
  have cmd: "ALTITUDE_CMD (st n1) = 2000"
    unfolding k using tick_climb(3) [OF mk step] ik(1) by simp
  have below: "mode (st j) = CLIMB \<and> altitude (st j) < 1920" if "j < n1" for j
  proof -
    have "\<forall>i\<le>j. mode (st i) = CLIMB"
      using before that by simp
    then show ?thesis
      using inv [of j] by simp
  qed
  have "altitude (st n1) \<le> 1920 + 7/36"
    unfolding k using b(4) ik(4) by simp
  then show ?thesis
    using pos below cap cmd b(1,2) unfolding k by blast
qed


lemma capture_phase:
  fixes st :: "nat \<Rightarrow> sim"
  assumes step: "\<And>k. tick [] (1/60) (st k) = Inr (st (Suc k))"
    and entry: "mode (st n1) = ALT_CAPTURE" "1920 \<le> altitude (st n1)"
      "altitude (st n1) \<le> 1920 + 7/36" "35/2 \<le> vspeed (st n1)" "vspeed (st n1) \<le> 700"
      "ALTITUDE_CMD (st n1) = 2000"
  shows "\<exists>m>n1. (\<forall>k. n1 \<le> k \<and> k \<le> m \<longrightarrow> mode (st k) = ALT_CAPTURE \<and> ALTITUDE_CMD (st k) = 2000) \<and>
           (\<forall>k. n1 \<le> k \<and> k < m \<longrightarrow> \<not> \<bar>2000 - altitude (st k)\<bar> < 5) \<and>
           \<bar>2000 - altitude (st m)\<bar> < 5"
proof -
  have inv: "mode (st (n1 + i)) = ALT_CAPTURE \<and> ALTITUDE_CMD (st (n1 + i)) = 2000 \<and>
             35/2 \<le> vspeed (st (n1 + i)) \<and> vspeed (st (n1 + i)) \<le> 700 \<and>
             1920 + real i * (7/600) \<le> altitude (st (n1 + i)) \<and>
             (0 < i \<longrightarrow> altitude (st (n1 + i)) \<le> 1995 + 7/15)"
    if "\<forall>j<i. 5 \<le> 2000 - altitude (st (n1 + j))" for i
    using that
  proof (induction i)
    case 0
    then show ?case using entry by simp
  next
    case (Suc i)
    then have ih: "mode (st (n1 + i)) = ALT_CAPTURE" "ALTITUDE_CMD (st (n1 + i)) = 2000"
        "35/2 \<le> vspeed (st (n1 + i))" "vspeed (st (n1 + i)) \<le> 700"
        "1920 + real i * (7/600) \<le> altitude (st (n1 + i))"
      by simp_all
    have e: "5 \<le> 2000 - altitude (st (n1 + i))"
      using Suc.prems by simp
    note b = capture_step_bounds [OF ih(1) step ih(2) e ih(3,4)]
    have "real (Suc i) * (7/600) = real i * (7/600) + 7/600"
      by (simp add: algebra_simps)
    then have "1920 + real (Suc i) * (7/600) \<le> altitude (st (Suc (n1 + i)))"
      using b(5) ih(5) by linarith
    then have "1920 + real (Suc i) * (7/600) \<le> altitude (st (n1 + Suc i))"
      by simp
    moreover have "altitude (st (n1 + Suc i)) \<le> 1995 + 7/15"
      using b(6) e by simp
    ultimately show ?case
      using b(1,2,3,4) by simp
  qed
  have ex: "\<exists>i. \<not> 5 \<le> 2000 - altitude (st (n1 + i))"
  proof (rule ccontr)
    assume "\<not> (\<exists>i. \<not> 5 \<le> 2000 - altitude (st (n1 + i)))"
    then have all: "\<forall>i. 5 \<le> 2000 - altitude (st (n1 + i))" by simp
    then have "\<forall>j<6858. 5 \<le> 2000 - altitude (st (n1 + j))"
      by blast
    then have "1920 + real (6858::nat) * (7/600) \<le> altitude (st (n1 + 6858))"
      by (rule inv [THEN conjunct2, THEN conjunct2, THEN conjunct2, THEN conjunct2, THEN conjunct1])
    moreover have "5 \<le> 2000 - altitude (st (n1 + 6858))"
      using all by blast
    ultimately show False by linarith
  qed
  obtain i where i: "\<not> 5 \<le> 2000 - altitude (st (n1 + i))"
    and least: "\<forall>j<i. \<not> \<not> 5 \<le> 2000 - altitude (st (n1 + j))"
    using ex unfolding exists_least_iff [of "\<lambda>i. \<not> 5 \<le> 2000 - altitude (st (n1 + i))"]
    by blast
  have before: "5 \<le> 2000 - altitude (st (n1 + j))" if "j < i" for j
    using least that by blast
  have pos: "0 < i"
  proof (cases i)
    case 0
    then show ?thesis using i entry(3) by simp
  next
    case (Suc j)
    then show ?thesis by simp
  qed
  have at: "mode (st (n1 + j)) = ALT_CAPTURE \<and> ALTITUDE_CMD (st (n1 + j)) = 2000 \<and>
            (0 < j \<longrightarrow> altitude (st (n1 + j)) \<le> 1995 + 7/15)" if "j \<le> i" for j
  proof -
    have "\<forall>l<j. 5 \<le> 2000 - altitude (st (n1 + l))"
      using before that by simp
    then show ?thesis
      using inv [of j] by simp
  qed
  have "altitude (st (n1 + i)) \<le> 1995 + 7/15"
    using at [OF le_refl] pos by blast
  moreover have "1995 < altitude (st (n1 + i))"
    using i by linarith
  ultimately have close: "\<bar>2000 - altitude (st (n1 + i))\<bar> < 5"
    unfolding abs_less_iff by linarith
  have modes: "mode (st k) = ALT_CAPTURE \<and> ALTITUDE_CMD (st k) = 2000"
    if "n1 \<le> k \<and> k \<le> n1 + i" for k
  proof -
    have "k = n1 + (k - n1)" "k - n1 \<le> i"
      using that by arith+
    then show ?thesis using at [of "k - n1"] by simp
  qed
  have far: "\<not> \<bar>2000 - altitude (st k)\<bar> < 5" if "n1 \<le> k \<and> k < n1 + i" for k
  proof -
    have "k = n1 + (k - n1)" "k - n1 < i"
      using that by arith+
    then have "5 \<le> 2000 - altitude (st k)"
      using before [of "k - n1"] by simp
    then show ?thesis by linarith
  qed
  have "n1 < n1 + i" using pos by simp
  moreover have "\<forall>k. n1 \<le> k \<and> k \<le> n1 + i \<longrightarrow>
      mode (st k) = ALT_CAPTURE \<and> ALTITUDE_CMD (st k) = 2000"
    using modes by blast
  moreover have "\<forall>k. n1 \<le> k \<and> k < n1 + i \<longrightarrow> \<not> \<bar>2000 - altitude (st k)\<bar> < 5"
    using far by blast
  ultimately show ?thesis
    using close by (intro exI [of _ "n1 + i"]) (simp only: simp_thms)
qed


lemma run_phases:
  assumes "mode s = CLIMB" and "altitude s = 1000" and "ALTITUDE_CMD s = 2000"
    and "0 \<le> vspeed s" and "vspeed s \<le> 700"
  shows "\<exists>n1 n2 st.
           (\<forall>k. run (1/60) k s = Inr (st k)) \<and> 0 < n1 \<and> n1 + 1 < n2 \<and>
           (\<forall>k<n1. mode (st k) = CLIMB \<and> altitude (st k) < 1920) \<and>
           mode (st n1) = ALT_CAPTURE \<and> 1920 \<le> altitude (st n1) \<and>
           (\<forall>k. n1 \<le> k \<and> k < n2 \<longrightarrow> mode (st k) = ALT_CAPTURE) \<and>
           (\<forall>k. n1 \<le> k \<and> k < n2 - 1 \<longrightarrow> \<not> \<bar>2000 - altitude (st k)\<bar> < 5) \<and>
           \<bar>2000 - altitude (st (n2 - 1))\<bar> < 5 \<and>
           mode (st n2) = CRUISE \<and> altitude (st n2) = 2000 \<and> vspeed (st n2) = 0 \<and>
           pitch (st n2) = 0 \<and> airspeed (st n2) = IAS_CMD (st n2)"
proof -
  define st where "st k = (case run (1/60) k s of Inr x \<Rightarrow> x | Inl e \<Rightarrow> s)" for k
  have r: "run (1/60) k s = Inr (st k)" for k
    using run_total [of "1/60" k s] by (auto simp: st_def)
  have step: "tick [] (1/60) (st k) = Inr (st (Suc k))" for k
    using r [of "Suc k"] by (simp add: r)
  have s0: "st 0 = s"
    using r [of 0] by simp
  obtain n1 where n1: "0 < n1" "\<forall>k<n1. mode (st k) = CLIMB \<and> altitude (st k) < 1920"
      "mode (st n1) = ALT_CAPTURE" "1920 \<le> altitude (st n1)"
      "altitude (st n1) \<le> 1920 + 7/36" "35/2 \<le> vspeed (st n1)" "vspeed (st n1) \<le> 700"
      "ALTITUDE_CMD (st n1) = 2000"
    using climb_phase [of st, OF step] assms unfolding s0 by blast
  obtain m where m: "n1 < m"
      "\<forall>k. n1 \<le> k \<and> k \<le> m \<longrightarrow> mode (st k) = ALT_CAPTURE \<and> ALTITUDE_CMD (st k) = 2000"
      "\<forall>k. n1 \<le> k \<and> k < m \<longrightarrow> \<not> \<bar>2000 - altitude (st k)\<bar> < 5"
      "\<bar>2000 - altitude (st m)\<bar> < 5"
    using capture_phase [of st n1, OF step n1(3,4,5,6,7,8)] by blast
  have mm: "mode (st m) = ALT_CAPTURE" "ALTITUDE_CMD (st m) = 2000"
    using m(1,2) by simp_all
  have c: "\<bar>ALTITUDE_CMD (st m) - altitude (st m)\<bar> < 5"
    using m(4) mm(2) by simp
  note snap = tick_capture_snap [OF mm(1) step c]
  have fin: "mode (st (Suc m)) = CRUISE" "altitude (st (Suc m)) = 2000"
      "vspeed (st (Suc m)) = 0" "pitch (st (Suc m)) = 0"
      "airspeed (st (Suc m)) = IAS_CMD (st (Suc m))"
    using snap mm(2) by simp_all
  have a: "\<forall>k. run (1/60) k s = Inr (st k)"
    using r by blast
  have b: "n1 + 1 < Suc m"
    using m(1) by simp
  have d: "\<forall>k. n1 \<le> k \<and> k < Suc m \<longrightarrow> mode (st k) = ALT_CAPTURE"
    using m(2) by simp
  have e: "\<forall>k. n1 \<le> k \<and> k < Suc m - 1 \<longrightarrow> \<not> \<bar>2000 - altitude (st k)\<bar> < 5"
    using m(3) by simp
  have f: "\<bar>2000 - altitude (st (Suc m - 1))\<bar> < 5"
    using m(4) by simp
  show ?thesis
    using a n1(1) b n1(2,3,4) d e f fin
    by (intro exI [of _ n1] exI [of _ "Suc m"] exI [of _ st]) (simp only: simp_thms)
qed

lemma flight_logic_running:
  assumes "flight_logic dt s = Inr s1"
  shows "running s1 = running s"
proof (cases "mode s")
  case CLIMB
  then show ?thesis using assms by (auto simp: flight_logic_def climb_Inr)
next
  case DESCENT
  then show ?thesis using assms by (auto simp: flight_logic_def descent_Inr)
next
  case ALT_CAPTURE
  then show ?thesis
    using assms by (auto simp: flight_logic_def alt_capture_Inr Let_def split: if_splits)
next
  case CRUISE
  then show ?thesis using assms by (auto simp: flight_logic_def cruise_def)
next
  case ROLLS
  then show ?thesis using assms by (auto simp: flight_logic_def rolls_Inr Let_def)
qed

lemma tick_no_events_running:
  assumes "tick [] dt s = Inr s'"
  shows "running s' = running s"
proof -
  obtain s1 where fl: "flight_logic dt s = Inr s1"
    using flight_logic_total by blast
  have up: "update dt s = Inr s'"
    using assms by (simp add: tick_no_events)
  show ?thesis
    using update_after_flight_logic(9) [OF fl up] flight_logic_running [OF fl] by simp
qed

lemma run_shift:
  "run dt (Suc n) s = (case tick [] dt s of Inl e \<Rightarrow> Inl e | Inr s1 \<Rightarrow> run dt n s1)"
proof (induction n)
  case 0
  then show ?case by (simp split: sum.splits)
next
  case (Suc n)
  have "run dt (Suc (Suc n)) s =
          (case run dt (Suc n) s of Inl e \<Rightarrow> Inl e | Inr s' \<Rightarrow> tick [] dt s')"
    by simp
  also have "\<dots> = (case tick [] dt s of Inl e \<Rightarrow> Inl e | Inr s1 \<Rightarrow> run dt (Suc n) s1)"
    unfolding Suc.IH by (cases "tick [] dt s") simp_all
  finally show ?case .
qed

lemma main_loop_is_run:
  "running s \<Longrightarrow> main_loop (replicate n (dt, [])) s = run dt n s"
proof (induction n arbitrary: s)
  case 0
  then show ?case by simp
next
  case (Suc n)
  obtain s1 where s1: "tick [] dt s = Inr s1"
    using update_total [of dt s] by (auto simp: tick_no_events)
  have "running s1"
    using tick_no_events_running [OF s1] Suc.prems by simp
  then have "main_loop (replicate n (dt, [])) s1 = run dt n s1"
    by (rule Suc.IH)
  then show ?case
    using Suc.prems s1 by (simp add: run_shift del: run.simps)
qed

text \<open>
  The switch to \<open>CRUISE\<close> is decided on the error that the capture branch computes
  before it moves the altitude. One tick at frame time \<open>1/60\<close> from altitude 1994.9 with
  the commanded altitude 2000 and vertical speed 300: the error is 5.1, the altitude after
  the update is 1995.0939, within 5 ft of the commanded altitude, and the mode is still
  \<open>ALT_CAPTURE\<close>. The run from altitude 1000 has such a tick as well: a tick that starts in
  \<open>ALT_CAPTURE\<close>, ends with an altitude within 5 ft of 2000 and does not switch to
  \<open>CRUISE\<close>.
\<close>

theorem cruise_switch_counterexample:
  "map_sum id (\<lambda>r. (mode r, altitude r))
     (tick [] (1/60) (init\<lparr>mode := ALT_CAPTURE, ALTITUDE_CMD := 2000,
                             altitude := 19949 / 10, vspeed := 300\<rparr>))
     = Inr (ALT_CAPTURE, 19950939 / 10000) \<and>
   \<bar>2000 - 19950939 / 10000\<bar> < (5::real) \<and>
   \<not> (\<forall>k a a'. run (1/60) k (init\<lparr>mode := CLIMB, ALTITUDE_CMD := 2000\<rparr>) = Inr a \<and>
          tick [] (1/60) a = Inr a' \<and> mode a = ALT_CAPTURE \<and> \<bar>2000 - altitude a'\<bar> < 5
          \<longrightarrow> mode a' = CRUISE)"
proof -
  let ?c = "init\<lparr>mode := ALT_CAPTURE, ALTITUDE_CMD := 2000, altitude := 19949 / 10, vspeed := 300\<rparr>"
  let ?s = "init\<lparr>mode := CLIMB, ALTITUDE_CMD := 2000\<rparr>"
  obtain c' where c': "tick [] (1/60) ?c = Inr c'"
    using update_total [of "1/60" ?c] by (auto simp: tick_no_events)
  have mc: "mode ?c = ALT_CAPTURE" and nc: "\<not> \<bar>ALTITUDE_CMD ?c - altitude ?c\<bar> < 5"
    by (simp_all add: init_def)
  note h = tick_capture_hold [OF mc c' nc]
  have v: "vspeed c' = 5817 / 20"
    using h(2) by (simp add: smooth_def clip_def init_def)
  have "altitude c' = 19950939 / 10000"
    using h(3) unfolding v by (simp add: init_def)
  then have one: "map_sum id (\<lambda>r. (mode r, altitude r)) (tick [] (1/60) ?c)
      = Inr (ALT_CAPTURE, 19950939 / 10000)"
    using h(1) by (simp add: c')
  have two: "\<bar>2000 - 19950939 / 10000\<bar> < (5::real)"
    by simp
  have "mode ?s = CLIMB" "altitude ?s = 1000" "ALTITUDE_CMD ?s = 2000"
      "0 \<le> vspeed ?s" "vspeed ?s \<le> 700"
    by (simp_all add: init_def)
  then obtain n1 n2 st where p: "\<forall>k. run (1/60) k ?s = Inr (st k)" "n1 + 1 < n2"
      "\<forall>k. n1 \<le> k \<and> k < n2 \<longrightarrow> mode (st k) = ALT_CAPTURE"
      "\<bar>2000 - altitude (st (n2 - 1))\<bar> < 5"
    using run_phases [of ?s] by blast
  obtain k where k: "n2 = Suc (Suc k)" "n1 \<le> k"
    using p(2) by (cases n2; cases "n2 - 1") auto
  have ra: "run (1/60) k ?s = Inr (st k)" and rb: "run (1/60) (Suc k) ?s = Inr (st (Suc k))"
    using p(1) by blast+
  have tk: "tick [] (1/60) (st k) = Inr (st (Suc k))"
    using rb by (simp add: ra)
  have ma: "mode (st k) = ALT_CAPTURE" "mode (st (Suc k)) = ALT_CAPTURE"
    using p(3) k by simp_all
  have cl: "\<bar>2000 - altitude (st (Suc k))\<bar> < 5"
    using p(4) k by simp
  have three: "\<not> (\<forall>k a a'. run (1/60) k ?s = Inr a \<and>
          tick [] (1/60) a = Inr a' \<and> mode a = ALT_CAPTURE \<and> \<bar>2000 - altitude a'\<bar> < 5
          \<longrightarrow> mode a' = CRUISE)"
  proof
    assume "\<forall>k a a'. run (1/60) k ?s = Inr a \<and>
          tick [] (1/60) a = Inr a' \<and> mode a = ALT_CAPTURE \<and> \<bar>2000 - altitude a'\<bar> < 5
          \<longrightarrow> mode a' = CRUISE"
    then have "mode (st (Suc k)) = CRUISE"
      using ra tk ma(1) cl by blast
    then show False using ma(2) by simp
  qed
  show ?thesis
    using one two three by blast
qed

text \<open>
  C1, as the code has it. The run starts in mode \<open>CLIMB\<close> at altitude 1000 with the
  commanded altitude 2000 (and a vertical speed between 0 and 700, 0 in the program's
  initial state); every tick has the frame time \<open>1/60\<close> and no events; \<open>st k\<close> is the
  state after \<open>k\<close> ticks. There are ticks \<open>n1 < n2\<close> such that: the mode is \<open>CLIMB\<close> and the
  altitude below 1920 after every tick before \<open>n1\<close>; tick \<open>n1\<close> is the first whose altitude
  after the update is at least \<open>1920 = 2000 - 80\<close>, and it sets the mode to
  \<open>ALT_CAPTURE\<close>; the mode stays \<open>ALT_CAPTURE\<close> until tick \<open>n2\<close>; tick \<open>n2\<close> is the first
  tick in capture that starts with \<open>\<bar>2000 - altitude\<bar> < 5\<close>, the altitude being the one
  before that tick's update, and it sets the mode to \<open>CRUISE\<close>, the altitude to exactly
  2000, the vertical speed and the pitch to 0 and the airspeed to the commanded airspeed.
  Both transitions do occur. The tick before \<open>n2\<close> already ends within 5 ft of 2000 and
  stays in \<open>ALT_CAPTURE\<close>.
\<close>

theorem climb_capture_cruise_run:
  assumes "mode s = CLIMB" and "altitude s = 1000" and "ALTITUDE_CMD s = 2000"
    and "0 \<le> vspeed s" and "vspeed s \<le> 700"
  shows "\<exists>n1 n2 st.
           (\<forall>k. run (1/60) k s = Inr (st k)) \<and> 0 < n1 \<and> n1 + 1 < n2 \<and>
           (\<forall>k<n1. mode (st k) = CLIMB \<and> altitude (st k) < 1920) \<and>
           mode (st n1) = ALT_CAPTURE \<and> 1920 \<le> altitude (st n1) \<and>
           (\<forall>k. n1 \<le> k \<and> k < n2 \<longrightarrow> mode (st k) = ALT_CAPTURE) \<and>
           (\<forall>k. n1 \<le> k \<and> k < n2 - 1 \<longrightarrow> \<not> \<bar>2000 - altitude (st k)\<bar> < 5) \<and>
           \<bar>2000 - altitude (st (n2 - 1))\<bar> < 5 \<and>
           mode (st n2) = CRUISE \<and> altitude (st n2) = 2000 \<and> vspeed (st n2) = 0 \<and>
           pitch (st n2) = 0 \<and> airspeed (st n2) = IAS_CMD (st n2)"
  using assms by (rule run_phases)

theorem climb_capture_cruise_run_witness:
  "mode (init\<lparr>mode := CLIMB, ALTITUDE_CMD := 2000\<rparr>) = CLIMB \<and>
   altitude (init\<lparr>mode := CLIMB, ALTITUDE_CMD := 2000\<rparr>) = 1000 \<and>
   ALTITUDE_CMD (init\<lparr>mode := CLIMB, ALTITUDE_CMD := 2000\<rparr>) = 2000 \<and>
   0 \<le> vspeed (init\<lparr>mode := CLIMB, ALTITUDE_CMD := 2000\<rparr>) \<and>
   vspeed (init\<lparr>mode := CLIMB, ALTITUDE_CMD := 2000\<rparr>) \<le> 700 \<and>
   (\<exists>n1 n2 st.
      (\<forall>k. run (1/60) k (init\<lparr>mode := CLIMB, ALTITUDE_CMD := 2000\<rparr>) = Inr (st k)) \<and>
      0 < n1 \<and> n1 + 1 < n2 \<and>
      (\<forall>k<n1. mode (st k) = CLIMB \<and> altitude (st k) < 1920) \<and>
      mode (st n1) = ALT_CAPTURE \<and> 1920 \<le> altitude (st n1) \<and>
      (\<forall>k. n1 \<le> k \<and> k < n2 \<longrightarrow> mode (st k) = ALT_CAPTURE) \<and>
      (\<forall>k. n1 \<le> k \<and> k < n2 - 1 \<longrightarrow> \<not> \<bar>2000 - altitude (st k)\<bar> < 5) \<and>
      \<bar>2000 - altitude (st (n2 - 1))\<bar> < 5 \<and>
      mode (st n2) = CRUISE \<and> altitude (st n2) = 2000 \<and> vspeed (st n2) = 0 \<and>
      pitch (st n2) = 0 \<and> airspeed (st n2) = IAS_CMD (st n2))"
proof -
  let ?s = "init\<lparr>mode := CLIMB, ALTITUDE_CMD := 2000\<rparr>"
  have h: "mode ?s = CLIMB" "altitude ?s = 1000" "ALTITUDE_CMD ?s = 2000"
      "0 \<le> vspeed ?s" "vspeed ?s \<le> 700"
    by (simp_all add: init_def)
  show ?thesis
    using h climb_capture_cruise_run [OF h] by (simp only: simp_thms)
qed

end
